theory Spec2Isabelle
  imports Complex_Main "HOL-Library.Word"
begin

text \<open>
  A model of the login script in its later revision, the one with the retry loop
  (\<^verbatim>\<open>MAX_RETRIES\<close>, \<^verbatim>\<open>loginWithAccount\<close>, \<^verbatim>\<open>attemptLogin\<close>, \<^verbatim>\<open>main\<close>). The browser
  driver, the notifier, the environment and \<^verbatim>\<open>JSON.parse\<close> are parameters: a run is a
  function of what they answer, and it yields the calls it made, in order, and its result.
  Every awaited driver call may throw.
\<close>

section \<open>JavaScript values\<close>

text \<open>
  A JavaScript string is a sequence of UTF-16 code units; \<open>length\<close> counts code units as
  the source's \<^verbatim>\<open>.length\<close> does. ASCII literals are written \<open>js ''...''\<close>, the Chinese
  literals of the source are written as their code units.
\<close>

type_synonym jsstring = "16 word list"

definition js :: "string \<Rightarrow> jsstring" where
  "js s = map of_char s"

text \<open>The values \<^verbatim>\<open>JSON.parse\<close> can return. An object is kept as the members of
  its JSON text, in the order in which the text supplies them.\<close>

datatype json =
    JNull
  | JBool bool
  | JNumber real
  | JString jsstring
  | JArray "json list"
  | JObject "(jsstring \<times> json) list"

text \<open>A thrown \<^verbatim>\<open>Error\<close>: its name and its message.\<close>

datatype fault = Fault (errName: jsstring) (errMessage: jsstring)

definition errorToString :: "fault \<Rightarrow> jsstring" where
  "errorToString e =
     (if errName e = [] then errMessage e
      else if errMessage e = [] then errName e
      else errName e @ js '': '' @ errMessage e)"

fun digit :: "nat \<Rightarrow> 16 word" where
  "digit n = of_nat (48 + n)"

fun natToString :: "nat \<Rightarrow> jsstring" where
  "natToString n = (if n < 10 then [digit n] else natToString (n div 10) @ [digit (n mod 10)])"

declare natToString.simps [simp del]

subsection \<open>Regular expressions of the source\<close>

text \<open>
  Every regular expression of the source is an alternation of literal strings under the
  flag \<^verbatim>\<open>i\<close>, without the flag \<^verbatim>\<open>u\<close>. Two code units then match when their
  canonical forms agree; for the ASCII and CJK literals of the source only the ASCII
  letters have a canonical form other than themselves.
\<close>

definition canonicalize :: "16 word \<Rightarrow> 16 word" where
  "canonicalize c = (if 0x61 \<le> c \<and> c \<le> 0x7A then c - 0x20 else c)"

fun matchesAt :: "(16 word \<Rightarrow> 16 word) \<Rightarrow> jsstring \<Rightarrow> jsstring \<Rightarrow> bool" where
  "matchesAt f [] s = True"
| "matchesAt f (p # ps) [] = False"
| "matchesAt f (p # ps) (c # cs) = (f p = f c \<and> matchesAt f ps cs)"

fun search :: "(16 word \<Rightarrow> 16 word) \<Rightarrow> jsstring \<Rightarrow> jsstring \<Rightarrow> bool" where
  "search f p [] = matchesAt f p []"
| "search f p (c # cs) = (matchesAt f p (c # cs) \<or> search f p cs)"

text \<open>\<^verbatim>\<open>/a|b|c/i.test(s)\<close> for literal alternatives.\<close>

definition regexTestI :: "jsstring list \<Rightarrow> jsstring \<Rightarrow> bool" where
  "regexTestI alts s = list_ex (\<lambda>p. search canonicalize p s) alts"

text \<open>\<^verbatim>\<open>s.includes(p)\<close>.\<close>

definition includesStr :: "jsstring \<Rightarrow> jsstring \<Rightarrow> bool" where
  "includesStr s p = search (\<lambda>c. c) p s"

section \<open>Constants and literals of the script\<close>

definition LOGIN_URL :: jsstring where
  "LOGIN_URL = js ''https://ctrl.lunes.host/auth/login''"

definition MAX_RETRIES :: nat where
  "MAX_RETRIES = 2"

definition NAVIGATION_TIMEOUT :: nat where
  "NAVIGATION_TIMEOUT = 60000"

text \<open>The stage labels, notification texts and result messages (Chinese in the source).\<close>

definition stage_open :: jsstring where
  "stage_open = [0x6253, 0x5F00, 0x767B, 0x5F55, 0x9875]"

definition msg_humanCheck :: jsstring where
  "msg_humanCheck = [0x68C0, 0x6D4B, 0x5230, 0x4EBA, 0x673A, 0x9A8C, 0x8BC1, 0x9875, 0x9762, 0xFF08]
     @ js ''Cloudflare/Turnstile''
     @ [0xFF09, 0xFF0C, 0x81EA, 0x52A8, 0x5316, 0x5DF2, 0x505C, 0x6B62, 0x3002]"

definition message_humanCheck :: jsstring where
  "message_humanCheck = [0x4EBA, 0x673A, 0x9A8C, 0x8BC1, 0x9875, 0x9762]"

definition stage_result :: jsstring where
  "stage_result = [0x767B, 0x5F55, 0x7ED3, 0x679C]"

definition msg_success_prefix :: jsstring where
  "msg_success_prefix = [0x5224, 0x65AD, 0x4E3A, 0x6210, 0x529F, 0x3002, 0x5F53, 0x524D]
     @ js '' URL'' @ [0xFF1A]"

definition message_success :: jsstring where
  "message_success = [0x767B, 0x5F55, 0x6210, 0x529F]"

definition message_errorState :: jsstring where
  "message_errorState = [0x9875, 0x9762, 0x663E, 0x793A, 0x9519, 0x8BEF, 0x72B6, 0x6001]"

definition msg_failed_prefix :: jsstring where
  "msg_failed_prefix = [0x767B, 0x5F55, 0x5931, 0x8D25] @ js '': ''"

definition msg_failed_unknown :: jsstring where
  "msg_failed_unknown = [0x767B, 0x5F55, 0x5931, 0x8D25, 0xFF08, 0x539F, 0x56E0, 0x672A, 0x77E5, 0xFF09]"

definition message_failed :: jsstring where
  "message_failed = [0x767B, 0x5F55, 0x5931, 0x8D25]"

definition stage_exception :: jsstring where
  "stage_exception = [0x5F02, 0x5E38]"

definition message_exception_prefix :: jsstring where
  "message_exception_prefix = [0x5F02, 0x5E38] @ js '': ''"

definition err_env_prefix :: jsstring where
  "err_env_prefix = [0x73AF, 0x5883, 0x53D8, 0x91CF] @ js '' ''"

definition err_env_suffix :: jsstring where
  "err_env_suffix = js '' '' @ [0x672A, 0x8BBE, 0x7F6E]"

definition err_format :: jsstring where
  "err_format = js ''USERNAME_AND_PASSWORD ''
     @ [0x683C, 0x5F0F, 0x9519, 0x8BEF, 0xFF0C, 0x5E94, 0x4E3A, 0x6709, 0x6548, 0x7684]
     @ js '' JSON '' @ [0x5B57, 0x7B26, 0x4E32]"

definition err_object :: jsstring where
  "err_object = js ''USERNAME_AND_PASSWORD '' @ [0x5E94, 0x4E3A, 0x5BF9, 0x8C61, 0x683C, 0x5F0F]"

definition err_empty :: jsstring where
  "err_empty = [0x672A, 0x627E, 0x5230, 0x6709, 0x6548, 0x7684, 0x8D26, 0x6237, 0x4FE1, 0x606F]"

definition stage_init :: jsstring where
  "stage_init = [0x521D, 0x59CB, 0x5316]"

section \<open>The browser driver and the trace of a run\<close>

text \<open>
  A locator string of the source: \<open>TextI alts\<close> is \<^verbatim>\<open>text=/a|b|c/i\<close>, \<open>Css s\<close> is the
  CSS selector \<open>s\<close>.
\<close>

datatype selector = TextI "jsstring list" | Css jsstring

text \<open>The three form locators of \<^verbatim>\<open>attemptLogin\<close>.\<close>

datatype target = UserInput | PassInput | LoginBtn

definition humanCheckSelector :: selector where
  "humanCheckSelector = TextI
     [js ''Verify you are human'', [0x9700, 0x8981, 0x9A8C, 0x8BC1], [0x5B89, 0x5168, 0x68C0, 0x67E5],
      js ''review the security'', js ''Cloudflare'', js ''Turnstile'']"

definition successSelectors :: "selector list" where
  "successSelectors =
     [TextI [js ''Dashboard'', [0x63A7, 0x5236, 0x53F0], [0x9762, 0x677F], [0x4EEA, 0x8868, 0x677F]],
      TextI [js ''Logout'', js ''Sign out'', [0x9000, 0x51FA], [0x767B, 0x51FA]],
      TextI [js ''Welcome'', [0x6B22, 0x8FCE]],
      TextI [js ''Account'', [0x8D26, 0x6237], [0x8D26, 0x53F7]],
      TextI [js ''Profile'', [0x4E2A, 0x4EBA, 0x8D44, 0x6599]]]"

definition errorSelectors :: "selector list" where
  "errorSelectors =
     [TextI [js ''Invalid'', js ''incorrect'', [0x9519, 0x8BEF], [0x5931, 0x8D25], [0x65E0, 0x6548],
             [0x4E0D, 0x6B63, 0x786E]],
      TextI [js ''Error'', [0x5F02, 0x5E38], [0x95EE, 0x9898]],
      Css (js ''.error-message''),
      Css (js ''.alert-error''),
      Css (js ''.text-danger''),
      Css (js ''[class*=\"error\"]''),
      Css (js ''[class*=\"alert\"]''),
      Css (js ''[class*=\"danger\"]'')]"

text \<open>What \<^verbatim>\<open>attemptLogin\<close> returns, and what \<^verbatim>\<open>loginWithAccount\<close> makes of it.\<close>

record outcome =
  success :: bool
  username :: jsstring
  message :: jsstring

record result = outcome +
  retries :: int

text \<open>
  Every call on the driver, the notifier and the timer is recorded, in the order in which
  the script issues it.
\<close>

datatype event =
    Launch
  | NewContext
  | NewPage
  | Goto jsstring
  | Count selector
  | InnerText selector
  | Title
  | Screenshot jsstring
  | IsVisible target
  | WaitForTimeout nat
  | Click target
  | Evaluate target
  | Fill target json
  | WaitForVisible target
  | WaitForNavigation
  | WaitForLoadState
  | CloseContext
  | CloseBrowser
  | Notify bool jsstring jsstring "jsstring option" jsstring
  | Summary "result list"
  | Sleep nat

text \<open>
  A step of the script yields the calls it made and either the fault thrown or its value.
\<close>

type_synonym 'a step = "event list \<times> (fault + 'a)"

definition ret :: "'a \<Rightarrow> 'a step" where
  "ret x = ([], Inr x)"

definition throw :: "fault \<Rightarrow> 'a step" where
  "throw e = ([], Inl e)"

definition call :: "event \<Rightarrow> fault + 'a \<Rightarrow> 'a step" where
  "call ev r = ([ev], r)"

definition bnd :: "'a step \<Rightarrow> ('a \<Rightarrow> 'b step) \<Rightarrow> 'b step" where
  "bnd m f =
     (case m of
        (t, Inl e) \<Rightarrow> (t, Inl e)
      | (t, Inr x) \<Rightarrow> (case f x of (t', r) \<Rightarrow> (t @ t', r)))"

text \<open>\<^verbatim>\<open>promise.catch(() => d)\<close>.\<close>

definition swallow :: "'a step \<Rightarrow> 'a \<Rightarrow> 'a step" where
  "swallow m d = (case m of (t, Inl e) \<Rightarrow> (t, Inr d) | (t, Inr x) \<Rightarrow> (t, Inr x))"

text \<open>\<^verbatim>\<open>try { m } catch (e) { h e }\<close>.\<close>

definition tryCatch :: "'a step \<Rightarrow> (fault \<Rightarrow> 'a step) \<Rightarrow> 'a step" where
  "tryCatch m h =
     (case m of
        (t, Inl e) \<Rightarrow> (case h e of (t', r) \<Rightarrow> (t @ t', r))
      | (t, Inr x) \<Rightarrow> (t, Inr x))"

text \<open>\<^verbatim>\<open>try { m } finally { fin }\<close>: a fault of the finally block replaces the
  completion of \<open>m\<close>, whether that was a return or a throw.\<close>

definition tryFinally :: "'a step \<Rightarrow> unit step \<Rightarrow> 'a step" where
  "tryFinally m fin =
     (case m of (t, r) \<Rightarrow>
        (case fin of
           (t', Inl e) \<Rightarrow> (t @ t', Inl e)
         | (t', Inr _) \<Rightarrow> (t @ t', r)))"

text \<open>The page as the classifier reads it after the submission has settled.\<close>

record page =
  url :: jsstring
  title :: "fault + jsstring"
  count :: "selector \<Rightarrow> fault + nat"
  innerText :: "selector \<Rightarrow> fault + jsstring"

text \<open>One round of \<^verbatim>\<open>smartWait\<close>: what the two visibility checks and the pause return.\<close>

record poll =
  userVisible :: "fault + bool"
  passVisible :: "fault + bool"
  waited :: "fault + unit"

text \<open>
  What the driver answers during one attempt. Each attempt launches a browser of its
  own, so each attempt has its own answers. \<open>polls\<close> holds the rounds of \<^verbatim>\<open>smartWait\<close>
  that start before its deadline.
\<close>

record scenario =
  launch :: "fault + unit"
  newContext :: "fault + unit"
  newPage :: "fault + unit"
  goto :: "fault + unit"
  humanCheckCount :: "fault + nat"
  shot :: "jsstring \<Rightarrow> fault + unit"
  polls :: "poll list"
  click :: "target \<Rightarrow> fault + unit"
  evaluate :: "target \<Rightarrow> fault + unit"
  fill :: "target \<Rightarrow> fault + unit"
  waitVisible :: "fault + unit"
  navigation :: "fault + unit"
  loadState :: "fault + unit"
  settle :: "fault + unit"
  after :: page
  existsSync :: "jsstring \<Rightarrow> bool"
  closeContext :: "fault + unit"
  closeBrowser :: "fault + unit"

text \<open>
  The world of a batch: the driver's answers for attempt \<open>retryCount\<close> on account \<open>index\<close>,
  and the whole milliseconds of \<^verbatim>\<open>Math.random() * 5000\<close> drawn after account \<open>index\<close>.
\<close>

record world =
  attempts :: "nat \<Rightarrow> nat \<Rightarrow> scenario"
  jitter :: "nat \<Rightarrow> nat"

section \<open>The script\<close>

text \<open>\<^verbatim>\<open>notifyTelegram\<close> catches everything it throws: it is a call that always returns.\<close>

definition notifyTelegram ::
  "bool \<Rightarrow> jsstring \<Rightarrow> jsstring \<Rightarrow> jsstring option \<Rightarrow> jsstring \<Rightarrow> unit step" where
  "notifyTelegram ok stage msg screenshotPath user =
     call (Notify ok stage msg screenshotPath user) (Inr ())"

definition sendSummaryNotification :: "result list \<Rightarrow> unit step" where
  "sendSummaryNotification results = call (Summary results) (Inr ())"

definition envOrThrow :: "(jsstring \<Rightarrow> jsstring option) \<Rightarrow> jsstring \<Rightarrow> fault + jsstring" where
  "envOrThrow env name =
     (case env name of
        None \<Rightarrow> Inl (Fault (js ''Error'') (err_env_prefix @ name @ err_env_suffix))
      | Some v \<Rightarrow>
          if v = [] then Inl (Fault (js ''Error'') (err_env_prefix @ name @ err_env_suffix))
          else Inr v)"

definition formVisible :: "poll \<Rightarrow> bool step" where
  "formVisible p =
     bnd (call (IsVisible UserInput) (userVisible p)) (\<lambda>u.
       if u then call (IsVisible PassInput) (passVisible p) else ret False)"

fun smartWait :: "(poll \<Rightarrow> bool step) \<Rightarrow> nat \<Rightarrow> poll list \<Rightarrow> bool step" where
  "smartWait condition checkInterval [] = ret False"
| "smartWait condition checkInterval (p # ps) =
     (case condition p of
        (t, Inr True) \<Rightarrow> (t, Inr True)
      | (t, _) \<Rightarrow>
          (case bnd (call (WaitForTimeout checkInterval) (waited p))
                  (\<lambda>_. smartWait condition checkInterval ps) of
             (t', r) \<Rightarrow> (t @ t', r)))"

definition screenshot :: "nat \<Rightarrow> jsstring \<Rightarrow> nat \<Rightarrow> jsstring \<Rightarrow> jsstring" where
  "screenshot index user retryCount name =
     js ''./'' @ name @ js ''-'' @ natToString index @ js ''-''
     @ map (\<lambda>c. if c = 0x40 \<or> c = 0x2E then 0x5F else c) user
     @ (if retryCount > 0 then js ''-retry'' @ natToString retryCount else [])
     @ js ''.png''"

fun successLoop :: "page \<Rightarrow> selector list \<Rightarrow> nat \<Rightarrow> nat step" where
  "successLoop pg [] successHint = ret successHint"
| "successLoop pg (s # ss) successHint =
     bnd (call (Count s) (count pg s)) (\<lambda>c.
       if c > 0 then ret (successHint + c) else successLoop pg ss (successHint + c))"

fun errorLoop :: "page \<Rightarrow> selector list \<Rightarrow> jsstring \<Rightarrow> jsstring step" where
  "errorLoop pg [] errorMsg = ret errorMsg"
| "errorLoop pg (s # ss) errorMsg =
     bnd (call (Count s) (count pg s)) (\<lambda>c.
       if c > 0 then
         bnd (swallow (call (InnerText s) (innerText pg s)) []) (\<lambda>m.
           if m \<noteq> [] \<and> length m > 1 then ret m else errorLoop pg ss m)
       else errorLoop pg ss errorMsg)"

text \<open>
  Step 4 of \<^verbatim>\<open>attemptLogin\<close>, second half: the page is still the login page and shows
  no success phrase; the error locators are scanned for a reason.
\<close>

definition failureBranch :: "jsstring \<Rightarrow> jsstring \<Rightarrow> page \<Rightarrow> outcome step" where
  "failureBranch user spAfter pg =
     bnd (errorLoop pg errorSelectors []) (\<lambda>found.
     bnd (if found = [] then
            bnd (call Title (title pg)) (\<lambda>pageTitle.
            bnd (swallow (call (InnerText (Css (js ''body''))) (innerText pg (Css (js ''body'')))) [])
              (\<lambda>mainContent.
                ret (if includesStr pageTitle (js ''Error'') \<or> includesStr mainContent (js ''Error'')
                     then message_errorState else found)))
          else ret found) (\<lambda>errorMsg.
     bnd (notifyTelegram False stage_result
            (if errorMsg \<noteq> [] then msg_failed_prefix @ errorMsg else msg_failed_unknown)
            (Some spAfter) user) (\<lambda>_.
       ret \<lparr>success = False, username = user,
            message = (if errorMsg \<noteq> [] then errorMsg else message_failed)\<rparr>)))"

text \<open>Step 4 of \<^verbatim>\<open>attemptLogin\<close>: the decision on the page after the submission.\<close>

definition classify :: "jsstring \<Rightarrow> jsstring \<Rightarrow> page \<Rightarrow> outcome step" where
  "classify user spAfter pg =
     bnd (successLoop pg successSelectors 0) (\<lambda>successHint.
       let stillOnLogin = regexTestI [js ''/auth/login''] (url pg) in
       if \<not> stillOnLogin \<or> successHint > 0 then
         bnd (notifyTelegram True stage_result (msg_success_prefix @ url pg) (Some spAfter) user) (\<lambda>_.
           ret \<lparr>success = True, username = user, message = message_success\<rparr>)
       else failureBranch user spAfter pg)"

text \<open>The body of the \<^verbatim>\<open>try\<close> block of \<^verbatim>\<open>attemptLogin\<close>.\<close>

definition tryBody :: "jsstring \<Rightarrow> json \<Rightarrow> nat \<Rightarrow> nat \<Rightarrow> scenario \<Rightarrow> outcome step" where
  "tryBody user password index retryCount sc =
     bnd (call (Goto LOGIN_URL) (goto sc)) (\<lambda>_.
     bnd (call (Count humanCheckSelector) (humanCheckCount sc)) (\<lambda>n.
       if n > 0 then
         (let sp = screenshot index user retryCount (js ''01-human-check'') in
          bnd (call (Screenshot sp) (shot sc sp)) (\<lambda>_.
          bnd (notifyTelegram False stage_open msg_humanCheck (Some sp) user) (\<lambda>_.
            ret \<lparr>success = False, username = user, message = message_humanCheck\<rparr>)))
       else
         bnd (smartWait formVisible 1000 (polls sc)) (\<lambda>_.
         bnd (call (Click UserInput) (click sc UserInput)) (\<lambda>_.
         bnd (call (Evaluate UserInput) (evaluate sc UserInput)) (\<lambda>_.
         bnd (call (Fill UserInput (JString user)) (fill sc UserInput)) (\<lambda>_.
         bnd (call (Click PassInput) (click sc PassInput)) (\<lambda>_.
         bnd (call (Evaluate PassInput) (evaluate sc PassInput)) (\<lambda>_.
         bnd (call (Fill PassInput password) (fill sc PassInput)) (\<lambda>_.
         bnd (call (WaitForVisible LoginBtn) (waitVisible sc)) (\<lambda>_.
         (let spBefore = screenshot index user retryCount (js ''02-before-submit'') in
          bnd (call (Screenshot spBefore) (shot sc spBefore)) (\<lambda>_.
          bnd (swallow (call WaitForNavigation (navigation sc)) ()) (\<lambda>_.
          bnd (call (Click LoginBtn) (click sc LoginBtn)) (\<lambda>_.
          bnd (swallow (call WaitForLoadState (loadState sc)) ()) (\<lambda>_.
          bnd (call (WaitForTimeout 3000) (settle sc)) (\<lambda>_.
          (let spAfter = screenshot index user retryCount (js ''03-after-submit'') in
           bnd (call (Screenshot spAfter) (shot sc spAfter)) (\<lambda>_.
             classify user spAfter (after sc)))))))))))))))))))"

text \<open>The \<^verbatim>\<open>catch\<close> block of \<^verbatim>\<open>attemptLogin\<close>.\<close>

definition handler :: "jsstring \<Rightarrow> nat \<Rightarrow> nat \<Rightarrow> scenario \<Rightarrow> fault \<Rightarrow> outcome step" where
  "handler user index retryCount sc e =
     (let sp = screenshot index user retryCount (js ''99-error'') in
      bnd (swallow (call (Screenshot sp) (shot sc sp)) ()) (\<lambda>_.
      bnd (notifyTelegram False stage_exception
             (if errMessage e \<noteq> [] then errMessage e else errorToString e)
             (if existsSync sc sp then Some sp else None) user) (\<lambda>_.
        ret \<lparr>success = False, username = user,
             message = message_exception_prefix @ errMessage e\<rparr>)))"

text \<open>The \<^verbatim>\<open>finally\<close> block of \<^verbatim>\<open>attemptLogin\<close>.\<close>

definition teardown :: "scenario \<Rightarrow> unit step" where
  "teardown sc = bnd (call CloseContext (closeContext sc)) (\<lambda>_. call CloseBrowser (closeBrowser sc))"

definition attemptLogin :: "jsstring \<Rightarrow> json \<Rightarrow> nat \<Rightarrow> nat \<Rightarrow> scenario \<Rightarrow> outcome step" where
  "attemptLogin user password index retryCount sc =
     bnd (call Launch (launch sc)) (\<lambda>_.
     bnd (call NewContext (newContext sc)) (\<lambda>_.
     bnd (call NewPage (newPage sc)) (\<lambda>_.
       tryFinally
         (tryCatch (tryBody user password index retryCount sc) (handler user index retryCount sc))
         (teardown sc))))"

text \<open>
  The retry loop of \<^verbatim>\<open>loginWithAccount\<close>, from the values of \<^verbatim>\<open>retryCount\<close> and
  \<^verbatim>\<open>result\<close> at the head of the loop to their values when it is left.
\<close>

function retryLoop ::
  "jsstring \<Rightarrow> json \<Rightarrow> nat \<Rightarrow> (nat \<Rightarrow> scenario) \<Rightarrow> nat \<Rightarrow> outcome option \<Rightarrow> (outcome option \<times> nat) step" where
  "retryLoop user password index w retryCount res =
     (if retryCount \<le> MAX_RETRIES \<and> \<not> (case res of None \<Rightarrow> False | Some r \<Rightarrow> success r) then
        bnd (if retryCount > 0 then call (Sleep 5000) (Inr ()) else ret ()) (\<lambda>_.
        bnd (attemptLogin user password index retryCount (w retryCount)) (\<lambda>r.
          retryLoop user password index w (retryCount + 1) (Some r)))
      else ret (res, retryCount))"
  by pat_completeness auto
termination
  by (relation "measure (\<lambda>(user, password, index, w, retryCount, res). Suc MAX_RETRIES - retryCount)") auto

declare retryLoop.simps [simp del]

text \<open>
  \<^verbatim>\<open>{ ...result, retries: retryCount - 1 }\<close>. Spreading \<^verbatim>\<open>null\<close> leaves every field
  but \<^verbatim>\<open>retries\<close> undefined: falsy where it is tested, \<^verbatim>\<open>undefined\<close> where it is printed.
\<close>

definition withRetries :: "outcome option \<Rightarrow> nat \<Rightarrow> result" where
  "withRetries res retryCount =
     (case res of
        Some r \<Rightarrow> outcome.extend r (result.fields (int retryCount - 1))
      | None \<Rightarrow> \<lparr>success = False, username = js ''undefined'', message = [],
                 retries = int retryCount - 1\<rparr>)"

definition loginWithAccount :: "jsstring \<Rightarrow> json \<Rightarrow> nat \<Rightarrow> (nat \<Rightarrow> scenario) \<Rightarrow> result step" where
  "loginWithAccount user password index w =
     bnd (retryLoop user password index w 0 None) (\<lambda>(res, retryCount).
       ret (withRetries res retryCount))"

text \<open>
  The own properties of the object that \<^verbatim>\<open>JSON.parse\<close> builds from the members of an
  object text. A member whose name is already a property overwrites its value and keeps
  its place. \<^verbatim>\<open>Object.entries\<close> enumerates the properties whose name is an array index
  (a canonical decimal numeral below \<open>2^32 - 1\<close>) first, in ascending numeric order, and
  then the other properties in the order of their creation.
\<close>

definition arrayIndex :: "jsstring \<Rightarrow> int option" where
  "arrayIndex k =
     (if k \<noteq> [] \<and> list_all (\<lambda>c. 0x30 \<le> c \<and> c \<le> 0x39) k \<and> (k = [0x30] \<or> hd k \<noteq> 0x30) then
        (let n = foldl (\<lambda>a c. 10 * a + (uint c - 48)) 0 k
         in if n < 4294967295 then Some n else None)
      else None)"

fun upsert :: "jsstring \<Rightarrow> json \<Rightarrow> (jsstring \<times> json) list \<Rightarrow> (jsstring \<times> json) list" where
  "upsert k v [] = [(k, v)]"
| "upsert k v ((k', v') # ps) = (if k' = k then (k, v) # ps else (k', v') # upsert k v ps)"

definition createProperties :: "(jsstring \<times> json) list \<Rightarrow> (jsstring \<times> json) list" where
  "createProperties members = foldl (\<lambda>ps (k, v). upsert k v ps) [] members"

definition indexOf :: "jsstring \<times> json \<Rightarrow> int" where
  "indexOf p = (case arrayIndex (fst p) of None \<Rightarrow> 0 | Some n \<Rightarrow> n)"

definition ownEntries :: "(jsstring \<times> json) list \<Rightarrow> (jsstring \<times> json) list" where
  "ownEntries members =
     (let ps = createProperties members in
      sort_key indexOf (filter (\<lambda>p. arrayIndex (fst p) \<noteq> None) ps)
      @ filter (\<lambda>p. arrayIndex (fst p) = None) ps)"

text \<open>\<^verbatim>\<open>typeof\<close> and \<^verbatim>\<open>Object.entries\<close> on a parsed value.\<close>

fun typeof :: "json \<Rightarrow> string" where
  "typeof JNull = ''object''"
| "typeof (JBool b) = ''boolean''"
| "typeof (JNumber x) = ''number''"
| "typeof (JString s) = ''string''"
| "typeof (JArray xs) = ''object''"
| "typeof (JObject members) = ''object''"

fun objectEntries :: "json \<Rightarrow> fault + (jsstring \<times> json) list" where
  "objectEntries JNull = Inl (Fault (js ''TypeError'') (js ''Cannot convert undefined or null to object''))"
| "objectEntries (JBool b) = Inr []"
| "objectEntries (JNumber x) = Inr []"
| "objectEntries (JString s) = Inr (zip (map natToString [0..<length s]) (map (\<lambda>c. JString [c]) s))"
| "objectEntries (JArray xs) = Inr (zip (map natToString [0..<length xs]) xs)"
| "objectEntries (JObject members) = Inr (ownEntries members)"

text \<open>The \<^verbatim>\<open>for\<close> loop of \<^verbatim>\<open>main\<close>, from the values of \<^verbatim>\<open>i\<close> and \<^verbatim>\<open>results\<close> at its head.\<close>

function accountsLoop ::
  "world \<Rightarrow> (jsstring \<times> json) list \<Rightarrow> nat \<Rightarrow> result list \<Rightarrow> result list step" where
  "accountsLoop w accountEntries i results =
     (if i < length accountEntries then
        (case accountEntries ! i of (user, password) \<Rightarrow>
           bnd (loginWithAccount user password i (attempts w i)) (\<lambda>r.
           bnd (if i < length accountEntries - 1 then call (Sleep (5000 + jitter w i)) (Inr ())
                else ret ()) (\<lambda>_.
             accountsLoop w accountEntries (i + 1) (results @ [r]))))
      else ret results)"
  by pat_completeness auto
termination
  by (relation "measure (\<lambda>(w, accountEntries, i, results). length accountEntries - i)") auto

declare accountsLoop.simps [simp del]

text \<open>
  The \<^verbatim>\<open>try\<close> block of \<^verbatim>\<open>main\<close>. \<open>env\<close> is \<^verbatim>\<open>process.env\<close> and \<open>parse\<close> is
  \<^verbatim>\<open>JSON.parse\<close>, \<open>None\<close> where it throws.
\<close>

definition mainBody ::
  "(jsstring \<Rightarrow> jsstring option) \<Rightarrow> (jsstring \<Rightarrow> json option) \<Rightarrow> world \<Rightarrow> result list step" where
  "mainBody env parse w =
     bnd ([], envOrThrow env (js ''USERNAME_AND_PASSWORD'')) (\<lambda>usernameAndPasswordJson.
     bnd (case parse usernameAndPasswordJson of
            None \<Rightarrow> throw (Fault (js ''Error'') err_format)
          | Some a \<Rightarrow> ret a) (\<lambda>accounts.
       if typeof accounts \<noteq> ''object'' \<or> accounts = JNull then throw (Fault (js ''Error'') err_object)
       else
         bnd ([], objectEntries accounts) (\<lambda>accountEntries.
           if length accountEntries = 0 then throw (Fault (js ''Error'') err_empty)
           else
             bnd (accountsLoop w accountEntries 0 []) (\<lambda>results.
             bnd (sendSummaryNotification results) (\<lambda>_. ret results)))))"

text \<open>\<^verbatim>\<open>main\<close>: the calls made and the value left in \<^verbatim>\<open>process.exitCode\<close>.\<close>

definition main ::
  "(jsstring \<Rightarrow> jsstring option) \<Rightarrow> (jsstring \<Rightarrow> json option) \<Rightarrow> world \<Rightarrow> event list \<times> nat" where
  "main env parse w =
     (case mainBody env parse w of
        (t, Inr results) \<Rightarrow> (t, if list_ex (\<lambda>r. \<not> success r) results then 1 else 0)
      | (t, Inl e) \<Rightarrow>
          (case notifyTelegram False stage_init (errMessage e) None (js ''N/A'') of
             (t', _) \<Rightarrow> (t @ t', 1)))"

section \<open>Notions used in the statements\<close>

text \<open>The calls that touch the login form.\<close>

fun formInteraction :: "event \<Rightarrow> bool" where
  "formInteraction (IsVisible x) = True"
| "formInteraction (Click x) = True"
| "formInteraction (Evaluate x) = True"
| "formInteraction (Fill x v) = True"
| "formInteraction (WaitForVisible x) = True"
| "formInteraction ev = False"

text \<open>The calls on the browser driver: everything but the notifier and the timer.\<close>

fun driverCall :: "event \<Rightarrow> bool" where
  "driverCall (Notify ok stage msg sp user) = False"
| "driverCall (Summary rs) = False"
| "driverCall (Sleep n) = False"
| "driverCall ev = True"

text \<open>The calls by which the classifier looks for a failure reason.\<close>

fun failureProbe :: "event \<Rightarrow> bool" where
  "failureProbe (Count s) = (s \<in> set errorSelectors)"
| "failureProbe (InnerText s) = True"
| "failureProbe Title = True"
| "failureProbe ev = False"

text \<open>Every attempt launches one browser: the attempts of a trace are its launches.\<close>

definition attemptsMade :: "event list \<Rightarrow> nat" where
  "attemptsMade t = length (filter (\<lambda>ev. ev = Launch) t)"

definition setupOk :: "scenario \<Rightarrow> bool" where
  "setupOk sc \<longleftrightarrow> launch sc = Inr () \<and> newContext sc = Inr () \<and> newPage sc = Inr ()"

definition teardownOk :: "scenario \<Rightarrow> bool" where
  "teardownOk sc \<longleftrightarrow> closeContext sc = Inr () \<and> closeBrowser sc = Inr ()"

text \<open>The login page loads and the bot-check locator finds an element on it.\<close>

definition botCheckDetected :: "scenario \<Rightarrow> bool" where
  "botCheckDetected sc \<longleftrightarrow>
     goto sc = Inr () \<and> (case humanCheckCount sc of Inl e \<Rightarrow> False | Inr n \<Rightarrow> 0 < n)"

text \<open>
  The status with which a step inside the \<^verbatim>\<open>try\<close> block ends up in the Outcome:
  SUCCESS when it returns a successful outcome, FAILURE when it returns another one or
  throws (the \<^verbatim>\<open>catch\<close> block reports a failure).
\<close>

definition reportedSuccess :: "outcome step \<Rightarrow> bool" where
  "reportedSuccess m = (case snd m of Inl e \<Rightarrow> False | Inr out \<Rightarrow> success out)"

text \<open>
  The failure reason in the words of the specification: the text of the first locator of
  the list that finds an element whose text is longer than one code unit.
\<close>

definition matchedText :: "page \<Rightarrow> selector \<Rightarrow> jsstring option" where
  "matchedText pg s =
     (case count pg s of
        Inl e \<Rightarrow> None
      | Inr n \<Rightarrow> if 0 < n then Some (case innerText pg s of Inl e \<Rightarrow> [] | Inr m \<Rightarrow> m) else None)"

fun spec_firstMatchedText :: "page \<Rightarrow> selector list \<Rightarrow> jsstring option" where
  "spec_firstMatchedText pg [] = None"
| "spec_firstMatchedText pg (s # ss) =
     (case matchedText pg s of
        None \<Rightarrow> spec_firstMatchedText pg ss
      | Some m \<Rightarrow> if 1 < length m then Some m else spec_firstMatchedText pg ss)"

text \<open>
  The answers of the driver on a simple page: the page consists of plain text blocks
  without class attributes, listed in document order. A text locator finds the blocks
  whose text matches its pattern and \<^verbatim>\<open>first()\<close> is the first of them, the locator
  \<^verbatim>\<open>body\<close> finds the body, whose text is the blocks line by line, and a class selector
  finds nothing. No call throws, except reading the text of a locator that finds nothing.
  The driver is an external library: these pages serve to state the scenarios about a
  page text, and every general statement below is about an arbitrary \<open>page\<close>.
\<close>

definition textPage :: "jsstring \<Rightarrow> jsstring \<Rightarrow> jsstring list \<Rightarrow> page" where
  "textPage u ttl blocks =
     \<lparr>url = u,
      title = Inr ttl,
      count = (\<lambda>s. case s of
                 TextI alts \<Rightarrow> Inr (length (filter (regexTestI alts) blocks))
               | Css c \<Rightarrow> Inr (if c = js ''body'' then 1 else 0)),
      innerText = (\<lambda>s. case s of
                 TextI alts \<Rightarrow>
                   (case filter (regexTestI alts) blocks of
                      [] \<Rightarrow> Inl (Fault (js ''TimeoutError'') (js ''locator.innerText: Timeout exceeded''))
                    | b # bs \<Rightarrow> Inr b)
               | Css c \<Rightarrow>
                   if c = js ''body'' then Inr (concat (map (\<lambda>b. b @ [0x0A]) blocks))
                   else Inl (Fault (js ''TimeoutError'') (js ''locator.innerText: Timeout exceeded'')))\<rparr>"

text \<open>\<open>successPhrase b\<close>: one of the success patterns matches the text \<open>b\<close>.\<close>

definition successPhrase :: "jsstring \<Rightarrow> bool" where
  "successPhrase b =
     list_ex (\<lambda>s. case s of TextI alts \<Rightarrow> regexTestI alts b | Css c \<Rightarrow> False) successSelectors"

text \<open>Driver answers for the examples: an attempt that meets the bot-check page, one whose
  login succeeds, one that cannot launch a browser and one that cannot close its context.\<close>

definition quietPage :: page where
  "quietPage = textPage (js ''https://ctrl.lunes.host/'') (js ''Lunes'') [js ''Dashboard'']"

definition botScenario :: scenario where
  "botScenario =
     \<lparr>launch = Inr (), newContext = Inr (), newPage = Inr (), goto = Inr (),
      humanCheckCount = Inr 1, shot = (\<lambda>p. Inr ()), polls = [],
      click = (\<lambda>x. Inr ()), evaluate = (\<lambda>x. Inr ()), fill = (\<lambda>x. Inr ()),
      waitVisible = Inr (), navigation = Inr (), loadState = Inr (), settle = Inr (),
      after = quietPage, existsSync = (\<lambda>p. True),
      closeContext = Inr (), closeBrowser = Inr ()\<rparr>"

definition okScenario :: scenario where
  "okScenario = botScenario\<lparr>humanCheckCount := Inr 0\<rparr>"

definition noBrowserScenario :: scenario where
  "noBrowserScenario = okScenario\<lparr>launch := Inl (Fault (js ''Error'') (js ''Executable not found''))\<rparr>"

definition closeFaultScenario :: scenario where
  "closeFaultScenario =
     okScenario\<lparr>closeContext := Inl (Fault (js ''Error'') (js ''Target closed''))\<rparr>"

definition timeoutScenario :: scenario where
  "timeoutScenario =
     okScenario\<lparr>goto := Inl (Fault (js ''TimeoutError'') (js ''Timeout 60000ms exceeded''))\<rparr>"

definition worldOf :: "scenario \<Rightarrow> world" where
  "worldOf sc = \<lparr>attempts = (\<lambda>i retryCount. sc), jitter = (\<lambda>i. 0)\<rparr>"

definition envOf :: "jsstring \<Rightarrow> jsstring \<Rightarrow> jsstring option" where
  "envOf cfg name = (if name = js ''USERNAME_AND_PASSWORD'' then Some cfg else None)"

text \<open>
  The login page after a rejected submission whose only error element is
  \<^verbatim>\<open><div class="error-message">X</div>\<close>: the two locators that select
  on the class \<^verbatim>\<open>error\<close> find it, no text pattern matches.
\<close>

definition oneCharPage :: page where
  "oneCharPage =
     \<lparr>url = LOGIN_URL,
      title = Inr (js ''Login''),
      count = (\<lambda>s. Inr (if s = Css (js ''.error-message'') \<or> s = Css (js ''[class*=\"error\"]'')
                              \<or> s = Css (js ''body'') then 1 else 0)),
      innerText = (\<lambda>s.
         if s = Css (js ''.error-message'') \<or> s = Css (js ''[class*=\"error\"]'') then Inr (js ''X'')
         else if s = Css (js ''body'') then Inr (js ''Sign in'' @ [0x0A] @ js ''X'')
         else Inl (Fault (js ''TimeoutError'') (js ''locator.innerText: Timeout exceeded'')))\<rparr>"

text \<open>The result of an account whose first attempt succeeds.\<close>

definition okResult :: "jsstring \<times> json \<Rightarrow> result" where
  "okResult p = \<lparr>success = True, username = fst p, message = message_success, retries = 0\<rparr>"

text \<open>A stand-in for \<^verbatim>\<open>JSON.parse\<close> that parses the one text \<open>cfg\<close>, to the value \<open>v\<close>.\<close>

definition parseOf :: "jsstring \<Rightarrow> json \<Rightarrow> jsstring \<Rightarrow> json option" where
  "parseOf cfg v s = (if s = cfg then Some v else None)"

text \<open>\<open>errorPhrase b\<close>: the first error pattern matches the text \<open>b\<close>.\<close>

definition errorPhrase :: "jsstring \<Rightarrow> bool" where
  "errorPhrase b = (case hd errorSelectors of TextI alts \<Rightarrow> regexTestI alts b | Css c \<Rightarrow> False)"

text \<open>The calls of the \<^verbatim>\<open>catch\<close> block of \<^verbatim>\<open>attemptLogin\<close>.\<close>

definition handlerTrace :: "jsstring \<Rightarrow> nat \<Rightarrow> nat \<Rightarrow> scenario \<Rightarrow> fault \<Rightarrow> event list" where
  "handlerTrace user index retryCount sc e =
     [Screenshot (screenshot index user retryCount (js ''99-error'')),
      Notify False stage_exception
        (if errMessage e \<noteq> [] then errMessage e else errorToString e)
        (if existsSync sc (screenshot index user retryCount (js ''99-error''))
         then Some (screenshot index user retryCount (js ''99-error'')) else None) user]"

text \<open>\<open>yields P m\<close>: whatever the step \<open>m\<close> returns satisfies \<open>P\<close>.\<close>

definition yields :: "('a \<Rightarrow> bool) \<Rightarrow> 'a step \<Rightarrow> bool" where
  "yields P m = (case snd m of Inl e \<Rightarrow> True | Inr x \<Rightarrow> P x)"

section \<open>The own properties of a parsed object\<close>

lemma upsert_keys:
  "map fst (upsert k v ps) = (if k \<in> set (map fst ps) then map fst ps else map fst ps @ [k])"
  by (induction ps) (simp, force)

lemma upsert_fresh: "k \<notin> set (map fst ps) \<Longrightarrow> upsert k v ps = ps @ [(k, v)]"
  by (induction ps) auto

lemma foldl_upsert_keys:
  "distinct (map fst acc) \<Longrightarrow>
   distinct (map fst (foldl (\<lambda>ps (k, v). upsert k v ps) acc ms))
   \<and> set (map fst (foldl (\<lambda>ps (k, v). upsert k v ps) acc ms)) = set (map fst acc) \<union> set (map fst ms)"
proof (induction ms arbitrary: acc)
  case Nil
  then show ?case by simp
next
  case (Cons m ms)
  obtain k v where m: "m = (k, v)" by (cases m)
  have d: "distinct (map fst (upsert k v acc))"
    using Cons.prems by (simp add: upsert_keys)
  have s: "set (map fst (upsert k v acc)) = insert k (set (map fst acc))"
    by (auto simp: upsert_keys)
  from Cons.IH [OF d] s show ?case
    by (auto simp: m)
qed

lemma foldl_upsert_distinct:
  "distinct (map fst (acc @ ms)) \<Longrightarrow> foldl (\<lambda>ps (k, v). upsert k v ps) acc ms = acc @ ms"
proof (induction ms arbitrary: acc)
  case Nil
  then show ?case by simp
next
  case (Cons m ms)
  obtain k v where m: "m = (k, v)" by (cases m)
  from Cons.prems have "k \<notin> set (map fst acc)" by (auto simp: m)
  then have u: "upsert k v acc = acc @ [(k, v)]" by (rule upsert_fresh)
  from Cons.prems have "distinct (map fst ((acc @ [(k, v)]) @ ms))" by (simp add: m)
  from Cons.IH [OF this] u show ?case by (simp add: m)
qed

lemma createProperties_keys:
  "distinct (map fst (createProperties ms))"
  "set (map fst (createProperties ms)) = set (map fst ms)"
  using foldl_upsert_keys [of "[]" ms] by (simp_all add: createProperties_def)

lemma createProperties_distinct: "distinct (map fst ms) \<Longrightarrow> createProperties ms = ms"
  using foldl_upsert_distinct [of "[]" ms] by (simp add: createProperties_def)

lemma ownEntries_keys_set: "set (map fst (ownEntries ms)) = set (map fst ms)"
proof -
  have "set (ownEntries ms) = set (createProperties ms)"
    by (auto simp: ownEntries_def Let_def)
  then have "set (map fst (ownEntries ms)) = set (map fst (createProperties ms))"
    by simp
  then show ?thesis by (simp only: createProperties_keys)
qed

lemma distinct_map_sort_key: "distinct (map g (sort_key f xs)) = distinct (map g xs)"
  by (simp add: distinct_map)

lemma ownEntries_keys_distinct: "distinct (map fst (ownEntries ms))"
proof -
  have d: "distinct (map fst (createProperties ms))" by (rule createProperties_keys)
  then have "distinct (map fst (filter (\<lambda>p. arrayIndex (fst p) \<noteq> None) (createProperties ms)))"
    "distinct (map fst (filter (\<lambda>p. arrayIndex (fst p) = None) (createProperties ms)))"
    by (simp_all add: distinct_map_filter)
  then show ?thesis
    by (auto simp: ownEntries_def Let_def distinct_map_sort_key)
qed

lemma ownEntries_supplied_order:
  assumes "distinct (map fst ms)" "\<forall>k\<in>set (map fst ms). arrayIndex k = None"
  shows "ownEntries ms = ms"
proof -
  have "filter (\<lambda>p. arrayIndex (fst p) \<noteq> None) ms = []"
    "filter (\<lambda>p. arrayIndex (fst p) = None) ms = ms"
    using assms(2) by (auto simp: filter_empty_conv filter_id_conv)
  then show ?thesis
    by (simp add: ownEntries_def createProperties_distinct [OF assms(1)])
qed

lemma ownEntries_Nil [simp]: "ownEntries [] = []"
  by (simp add: ownEntries_def createProperties_def)

lemma ownEntries_single [simp]: "ownEntries [(k, v)] = [(k, v)]"
  by (simp add: ownEntries_def createProperties_def)

lemma ownEntries_nonempty: "ms \<noteq> [] \<Longrightarrow> ownEntries ms \<noteq> []"
proof
  assume "ms \<noteq> []" "ownEntries ms = []"
  then have "set (map fst (ownEntries ms)) = {}" by simp
  then have "set (map fst ms) = {}" by (simp only: ownEntries_keys_set)
  with \<open>ms \<noteq> []\<close> show False by simp
qed

section \<open>Steps, attempts and the retry loop\<close>

lemma bnd_Inr: "bnd (t, Inr x) f = (t @ fst (f x), snd (f x))"
  by (simp add: bnd_def split: prod.splits)

lemma bnd_Inl: "bnd (t, Inl e) f = (t, Inl e)"
  by (simp add: bnd_def)

lemmas step_simps = ret_def throw_def call_def bnd_Inr bnd_Inl

lemma notifyTelegram_eq:
  "notifyTelegram ok stage msg sp user = ([Notify ok stage msg sp user], Inr ())"
  by (simp add: notifyTelegram_def call_def)

lemma handler_eq:
  "handler user index retryCount sc e =
     (handlerTrace user index retryCount sc e,
      Inr \<lparr>success = False, username = user, message = message_exception_prefix @ errMessage e\<rparr>)"
  by (cases "shot sc (screenshot index user retryCount (js ''99-error''))")
     (simp_all add: handler_def handlerTrace_def swallow_def step_simps notifyTelegram_eq Let_def)

lemma attemptLogin_guarded:
  assumes "setupOk sc" "teardownOk sc"
  shows "attemptLogin user password index retryCount sc =
     (case tryBody user password index retryCount sc of
        (t, Inr out) \<Rightarrow> ([Launch, NewContext, NewPage] @ t @ [CloseContext, CloseBrowser], Inr out)
      | (t, Inl e) \<Rightarrow>
          ([Launch, NewContext, NewPage] @ t @ handlerTrace user index retryCount sc e
             @ [CloseContext, CloseBrowser],
           Inr \<lparr>success = False, username = user,
                message = message_exception_prefix @ errMessage e\<rparr>))"
  using assms
  by (simp add: attemptLogin_def setupOk_def teardownOk_def teardown_def tryFinally_def
      tryCatch_def handler_eq step_simps split: prod.splits sum.splits)

lemma tryBody_botCheck:
  assumes "botCheckDetected sc"
  shows "tryBody user password index retryCount sc =
     (case shot sc (screenshot index user retryCount (js ''01-human-check'')) of
        Inr u \<Rightarrow>
          ([Goto LOGIN_URL, Count humanCheckSelector,
            Screenshot (screenshot index user retryCount (js ''01-human-check'')),
            Notify False stage_open msg_humanCheck
              (Some (screenshot index user retryCount (js ''01-human-check''))) user],
           Inr \<lparr>success = False, username = user, message = message_humanCheck\<rparr>)
      | Inl e \<Rightarrow>
          ([Goto LOGIN_URL, Count humanCheckSelector,
            Screenshot (screenshot index user retryCount (js ''01-human-check''))], Inl e))"
  using assms
  by (auto simp: tryBody_def botCheckDetected_def Let_def step_simps notifyTelegram_eq split: sum.splits)

lemma retryLoop_bounds:
  "retryLoop user password index w retryCount res = (t, Inr (res', n)) \<Longrightarrow>
   retryCount \<le> Suc MAX_RETRIES \<Longrightarrow> retryCount \<le> n \<and> n \<le> Suc MAX_RETRIES"
proof (induction user password index w retryCount res arbitrary: t rule: retryLoop.induct)
  case (1 user password index w retryCount res)
  show ?case
  proof (cases "retryCount \<le> MAX_RETRIES \<and> \<not> (case res of None \<Rightarrow> False | Some r \<Rightarrow> success r)")
    case False
    with "1.prems" show ?thesis
      by (simp add: retryLoop.simps [of user password index w retryCount res] step_simps)
  next
    case True
    obtain t1 r1 where a: "attemptLogin user password index retryCount (w retryCount) = (t1, r1)"
      by (cases "attemptLogin user password index retryCount (w retryCount)")
    show ?thesis
    proof (cases r1)
      case (Inl e)
      with True a "1.prems" show ?thesis
        by (simp add: retryLoop.simps [of user password index w retryCount res] step_simps
            split: if_splits)
    next
      case (Inr out)
      obtain t2 where b: "retryLoop user password index w (retryCount + 1) (Some out) = (t2, Inr (res', n))"
        using True a Inr "1.prems"
        by (cases "retryLoop user password index w (retryCount + 1) (Some out)")
           (simp add: retryLoop.simps [of user password index w retryCount res] step_simps
            split: if_splits)
      have "retryCount + 1 \<le> n \<and> n \<le> Suc MAX_RETRIES"
        using "1.IH" [OF True b] True by simp
      then show ?thesis by simp
    qed
  qed
qed

lemma retryLoop_stop:
  "\<not> (retryCount \<le> MAX_RETRIES \<and> \<not> (case res of None \<Rightarrow> False | Some r \<Rightarrow> success r)) \<Longrightarrow>
   retryLoop user password index w retryCount res = ([], Inr (res, retryCount))"
  by (simp add: retryLoop.simps [of user password index w retryCount res] step_simps)

lemma retryLoop_fault:
  "retryCount \<le> MAX_RETRIES \<Longrightarrow> \<not> (case res of None \<Rightarrow> False | Some r \<Rightarrow> success r) \<Longrightarrow>
   attemptLogin user password index retryCount (w retryCount) = (t1, Inl e) \<Longrightarrow>
   retryLoop user password index w retryCount res =
     ((if retryCount > 0 then [Sleep 5000] else []) @ t1, Inl e)"
  by (simp add: retryLoop.simps [of user password index w retryCount res] step_simps)

lemma retryLoop_step:
  "retryCount \<le> MAX_RETRIES \<Longrightarrow> \<not> (case res of None \<Rightarrow> False | Some r \<Rightarrow> success r) \<Longrightarrow>
   attemptLogin user password index retryCount (w retryCount) = (t1, Inr out) \<Longrightarrow>
   retryLoop user password index w retryCount res =
     ((if retryCount > 0 then [Sleep 5000] else []) @ t1
        @ fst (retryLoop user password index w (retryCount + 1) (Some out)),
      snd (retryLoop user password index w (retryCount + 1) (Some out)))"
  by (simp add: retryLoop.simps [of user password index w retryCount res] step_simps)

lemma attemptsMade_simps [simp]:
  "attemptsMade [] = 0"
  "attemptsMade (ev # t) = (if ev = Launch then Suc (attemptsMade t) else attemptsMade t)"
  "attemptsMade (t @ t') = attemptsMade t + attemptsMade t'"
  by (simp_all add: attemptsMade_def)

lemma attemptLogin_botCheck:
  assumes "setupOk sc" "teardownOk sc" "botCheckDetected sc"
  shows "\<exists>t out. attemptLogin user password index retryCount sc = (t, Inr out)
           \<and> \<not> success out \<and> \<not> list_ex formInteraction t \<and> attemptsMade t = 1"
  by (cases "shot sc (screenshot index user retryCount (js ''01-human-check''))")
     (simp_all add: attemptLogin_guarded [OF assms(1,2)] tryBody_botCheck [OF assms(3)]
        handlerTrace_def)

lemma retryLoop_all_fail:
  assumes "\<forall>rc \<le> MAX_RETRIES. \<exists>t out. attemptLogin user password index rc (w rc) = (t, Inr out)
             \<and> \<not> success out \<and> \<not> list_ex formInteraction t \<and> attemptsMade t = 1"
  shows "retryCount \<le> MAX_RETRIES \<Longrightarrow> \<not> (case res of None \<Rightarrow> False | Some r \<Rightarrow> success r) \<Longrightarrow>
     \<exists>t out. retryLoop user password index w retryCount res = (t, Inr (Some out, Suc MAX_RETRIES))
        \<and> \<not> success out \<and> \<not> list_ex formInteraction t
        \<and> attemptsMade t = Suc MAX_RETRIES - retryCount"
proof (induction "MAX_RETRIES - retryCount" arbitrary: retryCount res)
  case 0
  from assms "0.prems"(1) obtain t1 out where
    a: "attemptLogin user password index retryCount (w retryCount) = (t1, Inr out)"
    and f: "\<not> success out" "\<not> list_ex formInteraction t1" "attemptsMade t1 = 1"
    by blast
  have "retryLoop user password index w (retryCount + 1) (Some out)
          = ([], Inr (Some out, retryCount + 1))"
    using 0 by (intro retryLoop_stop) simp
  with retryLoop_step [where w = w, OF "0.prems"(1,2) a] f 0 show ?case
    by (auto simp: list_ex_iff)
next
  case (Suc k)
  from assms Suc.prems(1) obtain t1 out where
    a: "attemptLogin user password index retryCount (w retryCount) = (t1, Inr out)"
    and f: "\<not> success out" "\<not> list_ex formInteraction t1" "attemptsMade t1 = 1"
    by blast
  have "\<exists>t out'. retryLoop user password index w (retryCount + 1) (Some out)
            = (t, Inr (Some out', Suc MAX_RETRIES))
        \<and> \<not> success out' \<and> \<not> list_ex formInteraction t
        \<and> attemptsMade t = Suc MAX_RETRIES - (retryCount + 1)"
    using Suc.hyps(1) [of "retryCount + 1" "Some out"] Suc.hyps(2) f(1) by simp
  then obtain t2 out' where
    b: "retryLoop user password index w (retryCount + 1) (Some out) = (t2, Inr (Some out', Suc MAX_RETRIES))"
    and g: "\<not> success out'" "\<not> list_ex formInteraction t2"
      "attemptsMade t2 = Suc MAX_RETRIES - (retryCount + 1)"
    by blast
  show ?case
    using retryLoop_step [where w = w, OF Suc.prems(1,2) a] b f g Suc.hyps(2) by (auto simp: list_ex_iff)
qed

section \<open>The retry policy (claims C1, C2) and the configuration (claim C7)\<close>

lemma botScenario_facts:
  "setupOk botScenario" "teardownOk botScenario" "botCheckDetected botScenario"
  by (simp_all add: botScenario_def setupOk_def teardownOk_def botCheckDetected_def)

lemma loginWithAccount_all_fail:
  assumes "\<forall>rc \<le> MAX_RETRIES. \<exists>t out. attemptLogin user password index rc (w rc) = (t, Inr out)
             \<and> \<not> success out \<and> \<not> list_ex formInteraction t \<and> attemptsMade t = 1"
  shows "\<exists>t r. loginWithAccount user password index w = (t, Inr r)
           \<and> \<not> success r \<and> retries r = int MAX_RETRIES
           \<and> attemptsMade t = Suc MAX_RETRIES \<and> \<not> list_ex formInteraction t"
proof -
  obtain t out where "retryLoop user password index w 0 None = (t, Inr (Some out, Suc MAX_RETRIES))"
    and "\<not> success out" "\<not> list_ex formInteraction t" "attemptsMade t = Suc MAX_RETRIES - 0"
    using retryLoop_all_fail [OF assms, of 0 None] by auto
  then show ?thesis
    by (simp add: loginWithAccount_def step_simps withRetries_def outcome.defs result.defs)
qed

text \<open>
  Claim C1, as the code has it. When an attempt meets the bot-check page (and launching
  and closing the browser do not fault), \<^verbatim>\<open>attemptLogin\<close> returns a FAILURE without
  any call on the login form. The retry loop does not stop on it: it treats the failure as
  any other, so an account whose attempts all meet the bot-check page gets
  \<open>MAX_RETRIES + 1\<close> attempts and reports \<open>MAX_RETRIES\<close> retries.
\<close>

theorem C1_bot_check_is_retried:
  assumes "\<forall>rc \<le> MAX_RETRIES. setupOk (w rc) \<and> teardownOk (w rc) \<and> botCheckDetected (w rc)"
  shows "(\<forall>rc \<le> MAX_RETRIES. \<exists>t out. attemptLogin user password index rc (w rc) = (t, Inr out)
             \<and> \<not> success out \<and> \<not> list_ex formInteraction t)
       \<and> (\<exists>t r. loginWithAccount user password index w = (t, Inr r)
             \<and> \<not> success r \<and> retries r = int MAX_RETRIES
             \<and> attemptsMade t = MAX_RETRIES + 1 \<and> \<not> list_ex formInteraction t)"
proof -
  have each: "\<forall>rc \<le> MAX_RETRIES. \<exists>t out. attemptLogin user password index rc (w rc) = (t, Inr out)
             \<and> \<not> success out \<and> \<not> list_ex formInteraction t \<and> attemptsMade t = 1"
    using assms attemptLogin_botCheck by blast
  from loginWithAccount_all_fail [OF each] each show ?thesis
    by (metis Suc_eq_plus1)
qed

text \<open>The hypotheses of C1 hold when every attempt is \<open>botScenario\<close>.\<close>

theorem C1_bot_check_is_retried_witness:
  "setupOk botScenario \<and> teardownOk botScenario \<and> botCheckDetected botScenario
   \<and> (\<exists>t r. loginWithAccount (js ''a@b.c'') (JString (js ''pw'')) 0 (\<lambda>rc. botScenario) = (t, Inr r)
             \<and> \<not> success r \<and> retries r = 2 \<and> attemptsMade t = 3 \<and> \<not> list_ex formInteraction t)"
  using C1_bot_check_is_retried [of "\<lambda>rc. botScenario" "js ''a@b.c''" "JString (js ''pw'')" 0]
  by (simp add: botScenario_facts MAX_RETRIES_def)

text \<open>
  Claim C1 as stated fails: with the bot-check page met on every attempt, the first
  attempt returns the bot-check failure and the loop goes on to three attempts, not one.
\<close>

theorem C1_single_attempt_counterexample:
  "botCheckDetected botScenario
   \<and> snd (attemptLogin (js ''a@b.c'') (JString (js ''pw'')) 0 0 botScenario)
       = Inr \<lparr>success = False, username = js ''a@b.c'', message = message_humanCheck\<rparr>
   \<and> attemptsMade (fst (loginWithAccount (js ''a@b.c'') (JString (js ''pw'')) 0 (\<lambda>rc. botScenario))) = 3"
proof -
  have "\<forall>rc \<le> MAX_RETRIES. \<exists>t out.
          attemptLogin (js ''a@b.c'') (JString (js ''pw'')) 0 rc ((\<lambda>rc. botScenario) rc) = (t, Inr out)
             \<and> \<not> success out \<and> \<not> list_ex formInteraction t \<and> attemptsMade t = 1"
    using attemptLogin_botCheck [OF botScenario_facts] by simp
  from loginWithAccount_all_fail [OF this]
  have "attemptsMade (fst (loginWithAccount (js ''a@b.c'') (JString (js ''pw'')) 0 (\<lambda>rc. botScenario))) = 3"
    by (auto simp: MAX_RETRIES_def)
  moreover have "snd (attemptLogin (js ''a@b.c'') (JString (js ''pw'')) 0 0 botScenario)
       = Inr \<lparr>success = False, username = js ''a@b.c'', message = message_humanCheck\<rparr>"
    by (simp add: attemptLogin_guarded [OF botScenario_facts(1,2)]
        tryBody_botCheck [OF botScenario_facts(3)]) (simp add: botScenario_def)
  ultimately show ?thesis
    using botScenario_facts(3) by simp
qed

text \<open>
  Claim C2, as the code has it. The retries count of an Outcome lies between 0 and
  \<open>MAX_RETRIES\<close>; it is 0 whenever the first attempt returns SUCCESS, and at least 1
  whenever the first attempt returns a FAILURE, a bot-check failure included.
\<close>

theorem C2_retries_bounded:
  assumes "loginWithAccount user password index w = (t, Inr r)"
  shows "0 \<le> retries r \<and> retries r \<le> int MAX_RETRIES
       \<and> (\<forall>t0 out. attemptLogin user password index 0 (w 0) = (t0, Inr out) \<longrightarrow>
             (success out \<longrightarrow> retries r = 0) \<and> (\<not> success out \<longrightarrow> 1 \<le> retries r))"
proof -
  obtain res n where loop: "retryLoop user password index w 0 None = (t, Inr (res, n))"
    and r: "r = withRetries res n"
    using assms
    by (cases "retryLoop user password index w 0 None")
       (auto simp: loginWithAccount_def step_simps bnd_def split: sum.splits prod.splits)
  have retr: "retries r = int n - 1"
    using r by (simp add: withRetries_def outcome.defs result.defs split: option.splits)
  have upper: "n \<le> Suc MAX_RETRIES"
    using retryLoop_bounds [OF loop] by simp
  obtain t1 r1 where a: "attemptLogin user password index 0 (w 0) = (t1, r1)"
    by (cases "attemptLogin user password index 0 (w 0)")
  have first: "\<exists>out. r1 = Inr out \<and> retryLoop user password index w 1 (Some out) = (drop (length t1) t, Inr (res, n))"
  proof (cases r1)
    case (Inl e)
    with retryLoop_fault [where w = w and retryCount = 0 and res = None, OF _ _ a [unfolded Inl]] loop
    show ?thesis by simp
  next
    case (Inr out)
    with retryLoop_step [where w = w and retryCount = 0 and res = None, OF _ _ a [unfolded Inr]] loop
    show ?thesis
      by (cases "retryLoop user password index w 1 (Some out)") auto
  qed
  then obtain out where out: "r1 = Inr out"
    and rest: "retryLoop user password index w 1 (Some out) = (drop (length t1) t, Inr (res, n))"
    by blast
  have lower: "1 \<le> n"
    using retryLoop_bounds [OF rest] by (simp add: MAX_RETRIES_def)
  have succ: "success out \<Longrightarrow> n = 1"
    using rest retryLoop_stop [of 1 "Some out" user password index w] by simp
  have fail: "2 \<le> n" if "\<not> success out"
  proof -
    obtain t2 r2 where b: "attemptLogin user password index 1 (w 1) = (t2, r2)"
      by (cases "attemptLogin user password index 1 (w 1)")
    show ?thesis
    proof (cases r2)
      case (Inl e)
      with retryLoop_fault [where w = w and retryCount = 1 and res = "Some out", OF _ _ b [unfolded Inl]]
        rest that
      show ?thesis by (simp add: MAX_RETRIES_def)
    next
      case (Inr out2)
      have "retryLoop user password index w 1 (Some out) =
          ([Sleep 5000] @ t2 @ fst (retryLoop user password index w (1 + 1) (Some out2)),
           snd (retryLoop user password index w (1 + 1) (Some out2)))"
        using retryLoop_step [where w = w and retryCount = 1 and res = "Some out",
            OF _ _ b [unfolded Inr]] that
        by (simp add: MAX_RETRIES_def)
      with rest obtain t3 where "retryLoop user password index w (1 + 1) (Some out2) = (t3, Inr (res, n))"
        by (cases "retryLoop user password index w (1 + 1) (Some out2)") auto
      from retryLoop_bounds [OF this] show ?thesis
        by (simp add: MAX_RETRIES_def)
    qed
  qed
  show ?thesis
    using retr upper lower succ fail a out by auto
qed

text \<open>The hypothesis of C2 holds when every attempt is \<open>botScenario\<close>.\<close>

theorem C2_retries_bounded_witness:
  "\<exists>t r. loginWithAccount (js ''a@b.c'') (JString (js ''pw'')) 0 (\<lambda>rc. botScenario) = (t, Inr r)
     \<and> 0 \<le> retries r \<and> retries r \<le> int MAX_RETRIES"
proof -
  have "\<forall>rc \<le> MAX_RETRIES. \<exists>t out.
          attemptLogin (js ''a@b.c'') (JString (js ''pw'')) 0 rc ((\<lambda>rc. botScenario) rc) = (t, Inr out)
             \<and> \<not> success out \<and> \<not> list_ex formInteraction t \<and> attemptsMade t = 1"
    using attemptLogin_botCheck [OF botScenario_facts] by simp
  from loginWithAccount_all_fail [OF this] obtain t r where
    l: "loginWithAccount (js ''a@b.c'') (JString (js ''pw'')) 0 (\<lambda>rc. botScenario) = (t, Inr r)"
    by blast
  from C2_retries_bounded [OF l] l show ?thesis by blast
qed

text \<open>
  Claim C2 as stated fails: the first attempt returns the bot-check failure and the
  Outcome reports two retries, not zero.
\<close>

theorem C2_bot_check_retries_counterexample:
  "snd (attemptLogin (js ''a@b.c'') (JString (js ''pw'')) 0 0 botScenario)
       = Inr \<lparr>success = False, username = js ''a@b.c'', message = message_humanCheck\<rparr>
   \<and> map_sum id retries (snd (loginWithAccount (js ''a@b.c'') (JString (js ''pw'')) 0 (\<lambda>rc. botScenario)))
       = Inr 2"
proof -
  have "\<forall>rc \<le> MAX_RETRIES. \<exists>t out.
          attemptLogin (js ''a@b.c'') (JString (js ''pw'')) 0 rc ((\<lambda>rc. botScenario) rc) = (t, Inr out)
             \<and> \<not> success out \<and> \<not> list_ex formInteraction t \<and> attemptsMade t = 1"
    using attemptLogin_botCheck [OF botScenario_facts] by simp
  from loginWithAccount_all_fail [OF this]
  have "map_sum id retries (snd (loginWithAccount (js ''a@b.c'') (JString (js ''pw'')) 0 (\<lambda>rc. botScenario)))
       = Inr 2"
    by (auto simp: MAX_RETRIES_def)
  moreover have "snd (attemptLogin (js ''a@b.c'') (JString (js ''pw'')) 0 0 botScenario)
       = Inr \<lparr>success = False, username = js ''a@b.c'', message = message_humanCheck\<rparr>"
    by (simp add: attemptLogin_guarded [OF botScenario_facts(1,2)]
        tryBody_botCheck [OF botScenario_facts(3)]) (simp add: botScenario_def)
  ultimately show ?thesis by simp
qed

text \<open>
  Claim C7. When the configuration value is absent, or does not parse, or parses to
  \<^verbatim>\<open>null\<close>, to a value that is not an object, or to an object without entries, \<^verbatim>\<open>main\<close>
  makes one call only, the notification of the initialization failure, and leaves the
  exit code 1: no attempt is started and the browser driver is never called.
\<close>

theorem C7_config_fails_fast:
  assumes "env (js ''USERNAME_AND_PASSWORD'') = None
     \<or> (\<exists>cfg. env (js ''USERNAME_AND_PASSWORD'') = Some cfg
          \<and> (parse cfg = None \<or> parse cfg = Some JNull
              \<or> (\<exists>a. parse cfg = Some a \<and> typeof a \<noteq> ''object'')
              \<or> parse cfg = Some (JObject [])))"
  shows "(\<exists>msg. main env parse w = ([Notify False stage_init msg None (js ''N/A'')], 1))
       \<and> attemptsMade (fst (main env parse w)) = 0
       \<and> \<not> list_ex driverCall (fst (main env parse w))"
proof -
  from assms have "\<exists>msg. main env parse w = ([Notify False stage_init msg None (js ''N/A'')], 1)"
    by (auto simp: main_def mainBody_def envOrThrow_def step_simps notifyTelegram_eq)
  then show ?thesis by auto
qed

text \<open>The hypothesis of C7 holds for the configuration \<^verbatim>\<open>not json\<close>, which \<open>parseOf\<close> does not parse.\<close>

theorem C7_config_fails_fast_witness:
  "envOf (js ''not json'') (js ''USERNAME_AND_PASSWORD'') = Some (js ''not json'')
   \<and> parseOf (js ''{}'') (JObject []) (js ''not json'') = None
   \<and> (\<exists>msg. main (envOf (js ''not json'')) (parseOf (js ''{}'') (JObject [])) (worldOf okScenario)
         = ([Notify False stage_init msg None (js ''N/A'')], 1))"
proof -
  have e: "envOf (js ''not json'') (js ''USERNAME_AND_PASSWORD'') = Some (js ''not json'')"
    by (simp add: envOf_def)
  have p: "parseOf (js ''{}'') (JObject []) (js ''not json'') = None"
    by (simp add: parseOf_def js_def)
  from e p C7_config_fails_fast [of "envOf (js ''not json'')" "parseOf (js ''{}'') (JObject [])"
      "worldOf okScenario"]
  show ?thesis
    by blast
qed

section \<open>The outcome classifier (claims C3, C4, C9)\<close>

lemma successLoop_answered:
  assumes "\<forall>s\<in>set ss. \<exists>n. count pg s = Inr n"
  shows "\<exists>t h'. successLoop pg ss h = (t, Inr h')
           \<and> (0 < h' \<longleftrightarrow> 0 < h \<or> (\<exists>s\<in>set ss. \<exists>n. 0 < n \<and> count pg s = Inr n))
           \<and> set t \<subseteq> Count ` set ss"
  using assms
proof (induction ss arbitrary: h)
  case Nil
  then show ?case by (simp add: step_simps)
next
  case (Cons s ss)
  then obtain n where n: "count pg s = Inr n" by auto
  show ?case
  proof (cases "0 < n")
    case True
    with n show ?thesis by (auto simp: step_simps)
  next
    case False
    from Cons.IH [of "h + n"] Cons.prems obtain t h' where
      "successLoop pg ss (h + n) = (t, Inr h')"
      "0 < h' \<longleftrightarrow> 0 < h + n \<or> (\<exists>s\<in>set ss. \<exists>n. 0 < n \<and> count pg s = Inr n)"
      "set t \<subseteq> Count ` set ss"
      by auto
    with n False show ?thesis by (auto simp: step_simps)
  qed
qed

lemma successLoop_cong:
  "\<forall>s\<in>set ss. count p s = count q s \<Longrightarrow> successLoop p ss h = successLoop q ss h"
  by (induction ss arbitrary: h) (simp_all add: bnd_def call_def split: sum.splits)

lemma selectors_disjoint: "s \<in> set successSelectors \<Longrightarrow> s \<notin> set errorSelectors"
  by (auto simp: successSelectors_def errorSelectors_def js_def)

lemma no_probe_in_success_counts:
  assumes "set t \<subseteq> Count ` set successSelectors"
  shows "\<not> list_ex failureProbe t"
proof
  assume "list_ex failureProbe t"
  then obtain ev where "ev \<in> set t" "failureProbe ev"
    by (auto simp: list_ex_iff)
  with assms obtain s where "ev = Count s" "s \<in> set successSelectors"
    by blast
  with \<open>failureProbe ev\<close> selectors_disjoint show False
    by simp
qed

lemma classify_success:
  assumes "\<forall>s\<in>set successSelectors. \<exists>n. count pg s = Inr n"
    and "\<not> regexTestI [js ''/auth/login''] (url pg)
         \<or> (\<exists>s\<in>set successSelectors. \<exists>n. 0 < n \<and> count pg s = Inr n)"
  shows "\<exists>t. classify user sp pg =
            (t, Inr \<lparr>success = True, username = user, message = message_success\<rparr>)
          \<and> \<not> list_ex failureProbe t"
proof -
  from successLoop_answered [OF assms(1), of 0] obtain t h' where
    l: "successLoop pg successSelectors 0 = (t, Inr h')"
    and h: "0 < h' \<longleftrightarrow> (\<exists>s\<in>set successSelectors. \<exists>n. 0 < n \<and> count pg s = Inr n)"
    and t: "set t \<subseteq> Count ` set successSelectors"
    by auto
  from assms(2) h have "\<not> regexTestI [js ''/auth/login''] (url pg) \<or> 0 < h'" by blast
  then have "classify user sp pg =
     (t @ [Notify True stage_result (msg_success_prefix @ url pg) (Some sp) user],
      Inr \<lparr>success = True, username = user, message = message_success\<rparr>)"
    by (auto simp: classify_def l step_simps notifyTelegram_eq Let_def)
  moreover have "\<not> list_ex failureProbe (t @ [Notify True stage_result (msg_success_prefix @ url pg) (Some sp) user])"
    using no_probe_in_success_counts [OF t] by (simp add: list_ex_iff)
  ultimately show ?thesis by blast
qed

lemma reportedSuccess_bnd:
  "reportedSuccess (bnd m f) = (case snd m of Inl e \<Rightarrow> False | Inr x \<Rightarrow> reportedSuccess (f x))"
  by (cases m; cases "snd m") (simp_all add: reportedSuccess_def step_simps)

lemma reportedSuccess_bnd_never:
  "(\<And>x. \<not> reportedSuccess (f x)) \<Longrightarrow> \<not> reportedSuccess (bnd m f)"
  by (simp add: reportedSuccess_bnd split: sum.splits)

lemma failureBranch_never_success: "\<not> reportedSuccess (failureBranch user sp pg)"
  unfolding failureBranch_def
  by (intro reportedSuccess_bnd_never) (simp add: reportedSuccess_def ret_def)

lemma classify_failure:
  assumes "successLoop pg successSelectors 0 = (t, Inr h)"
    and "regexTestI [js ''/auth/login''] (url pg)" and "h = 0"
  shows "classify user sp pg = (t @ fst (failureBranch user sp pg), snd (failureBranch user sp pg))"
  using assms by (simp add: classify_def failureBranch_def step_simps Let_def)

lemma classify_status:
  assumes "\<forall>s\<in>set successSelectors. \<exists>n. count pg s = Inr n"
  shows "reportedSuccess (classify user sp pg) \<longleftrightarrow>
      \<not> regexTestI [js ''/auth/login''] (url pg)
         \<or> (\<exists>s\<in>set successSelectors. \<exists>n. 0 < n \<and> count pg s = Inr n)"
proof (cases "\<not> regexTestI [js ''/auth/login''] (url pg)
         \<or> (\<exists>s\<in>set successSelectors. \<exists>n. 0 < n \<and> count pg s = Inr n)")
  case True
  with classify_success [OF assms, of user sp] show ?thesis
    by (auto simp: reportedSuccess_def)
next
  case False
  from successLoop_answered [OF assms, of 0] obtain t h' where
    l: "successLoop pg successSelectors 0 = (t, Inr h')"
    and h: "0 < h' \<longleftrightarrow> (\<exists>s\<in>set successSelectors. \<exists>n. 0 < n \<and> count pg s = Inr n)"
    by auto
  from False h have "\<not> 0 < h'" by blast
  then have "h' = 0" by simp
  from classify_failure [OF l _ this, of user sp] False failureBranch_never_success [of user sp pg]
  show ?thesis
    by (auto simp: reportedSuccess_def)
qed

lemma matchesAt_mono: "matchesAt (\<lambda>c. c) p s \<Longrightarrow> matchesAt f p s"
  by (induction "\<lambda>c::16 word. c" p s rule: matchesAt.induct) simp_all

lemma search_mono: "search (\<lambda>c. c) p s \<Longrightarrow> search f p s"
  by (induction s) (auto dest: matchesAt_mono)

lemma textPage_url [simp]: "url (textPage u ttl blocks) = u"
  by (simp add: textPage_def)

lemma textPage_count_text [simp]:
  "count (textPage u ttl blocks) (TextI alts) = Inr (length (filter (regexTestI alts) blocks))"
  by (simp add: textPage_def)

lemma textPage_answers: "\<exists>n. count (textPage u ttl blocks) s = Inr n"
  by (cases s) (simp_all add: textPage_def)

lemma textPage_success_hint:
  "(\<exists>s\<in>set successSelectors. \<exists>n. 0 < n \<and> count (textPage u ttl blocks) s = Inr n)
     \<longleftrightarrow> list_ex successPhrase blocks"
  by (auto simp: successSelectors_def successPhrase_def list_ex_iff filter_empty_conv)

lemma welcome_is_successPhrase: "includesStr b (js ''Welcome'') \<Longrightarrow> successPhrase b"
  by (simp add: successPhrase_def successSelectors_def regexTestI_def includesStr_def search_mono)

lemma textPage_status:
  "reportedSuccess (classify user sp (textPage u ttl blocks)) \<longleftrightarrow>
     \<not> regexTestI [js ''/auth/login''] u \<or> list_ex successPhrase blocks"
  using classify_status [of "textPage u ttl blocks" user sp] textPage_answers
  by (simp add: textPage_success_hint)

lemma textPage_success:
  assumes "\<not> regexTestI [js ''/auth/login''] u \<or> list_ex successPhrase blocks"
  shows "snd (classify user sp (textPage u ttl blocks))
           = Inr \<lparr>success = True, username = user, message = message_success\<rparr>"
proof -
  have "\<exists>t. classify user sp (textPage u ttl blocks) =
            (t, Inr \<lparr>success = True, username = user, message = message_success\<rparr>)
          \<and> \<not> list_ex failureProbe t"
    using assms textPage_answers
    by (intro classify_success) (simp_all add: textPage_success_hint)
  then show ?thesis by auto
qed

lemma classify_unfold:
  "classify user sp pg =
     (case successLoop pg successSelectors 0 of
        (t, Inl e) \<Rightarrow> (t, Inl e)
      | (t, Inr h) \<Rightarrow>
          if \<not> regexTestI [js ''/auth/login''] (url pg) \<or> 0 < h then
            (t @ [Notify True stage_result (msg_success_prefix @ url pg) (Some sp) user],
             Inr \<lparr>success = True, username = user, message = message_success\<rparr>)
          else (t @ fst (failureBranch user sp pg), snd (failureBranch user sp pg)))"
  by (simp add: classify_def failureBranch_def step_simps notifyTelegram_eq Let_def
      split: prod.splits sum.splits)

lemma classify_depends_on:
  assumes "url p = url q" "\<forall>s\<in>set successSelectors. count p s = count q s"
  shows "reportedSuccess (classify user sp p) = reportedSuccess (classify user' sp' q)"
  using failureBranch_never_success [of user sp p] failureBranch_never_success [of user' sp' q]
  by (simp add: classify_unfold successLoop_cong [OF assms(2)] assms(1) reportedSuccess_def
      split: prod.splits sum.splits)

lemma errorLoop_first:
  assumes "\<forall>s\<in>set ss. \<exists>n. count pg s = Inr n" "spec_firstMatchedText pg ss = Some m"
  shows "\<exists>t. errorLoop pg ss acc = (t, Inr m)"
  using assms
proof (induction ss arbitrary: acc)
  case Nil
  then show ?case by simp
next
  case (Cons s ss)
  then obtain n where n: "count pg s = Inr n" by auto
  show ?case
  proof (cases "0 < n")
    case False
    with n Cons.prems have "spec_firstMatchedText pg ss = Some m"
      by (simp add: matchedText_def)
    from Cons.IH [OF _ this, of acc] Cons.prems(1) obtain t where "errorLoop pg ss acc = (t, Inr m)"
      by auto
    with n False show ?thesis by (simp add: step_simps)
  next
    case True
    define m' where "m' = (case innerText pg s of Inl e \<Rightarrow> [] | Inr x \<Rightarrow> x)"
    have sw: "swallow (call (InnerText s) (innerText pg s)) [] = ([InnerText s], Inr m')"
      by (simp add: swallow_def call_def m'_def split: sum.splits)
    have mt: "matchedText pg s = Some m'"
      using n True by (simp add: matchedText_def m'_def)
    show ?thesis
    proof (cases "1 < length m'")
      case True
      with mt Cons.prems(2) have "m' = m" by simp
      with n \<open>0 < n\<close> sw True show ?thesis by (auto simp: step_simps)
    next
      case False
      with mt Cons.prems(2) have "spec_firstMatchedText pg ss = Some m" by simp
      from Cons.IH [OF _ this, of m'] Cons.prems(1) obtain t where "errorLoop pg ss m' = (t, Inr m)"
        by auto
      with n \<open>0 < n\<close> sw False show ?thesis by (auto simp: step_simps)
    qed
  qed
qed

lemma spec_firstMatchedText_long: "spec_firstMatchedText pg ss = Some m \<Longrightarrow> 1 < length m"
  by (induction ss) (auto split: option.splits if_splits)

lemma classify_reason:
  assumes "regexTestI [js ''/auth/login''] (url pg)"
    and "\<forall>s\<in>set successSelectors. count pg s = Inr 0"
    and "\<forall>s\<in>set errorSelectors. \<exists>n. count pg s = Inr n"
    and "spec_firstMatchedText pg errorSelectors = Some m"
  shows "\<exists>t. classify user sp pg = (t, Inr \<lparr>success = False, username = user, message = m\<rparr>)"
proof -
  from successLoop_answered [of successSelectors pg 0] assms(2) obtain t h where
    l: "successLoop pg successSelectors 0 = (t, Inr h)"
    and h: "0 < h \<longleftrightarrow> (\<exists>s\<in>set successSelectors. \<exists>n. 0 < n \<and> count pg s = Inr n)"
    by auto
  from h assms(2) have "h = 0" by auto
  from errorLoop_first [OF assms(3,4), of "[]"] obtain t' where
    e: "errorLoop pg errorSelectors [] = (t', Inr m)" by auto
  from spec_firstMatchedText_long [OF assms(4)] have "m \<noteq> []" by auto
  then have "snd (failureBranch user sp pg) = Inr \<lparr>success = False, username = user, message = m\<rparr>"
    by (simp add: failureBranch_def e step_simps notifyTelegram_eq)
  with classify_failure [OF l assms(1) \<open>h = 0\<close>, of user sp] show ?thesis
    by simp
qed


lemma find_filter_Cons: "find P xs = Some m \<Longrightarrow> \<exists>rest. filter P xs = m # rest"
  by (induction xs) (auto split: if_splits)

lemma textPage_no_success:
  "\<not> list_ex successPhrase blocks \<Longrightarrow> \<forall>s\<in>set successSelectors. count (textPage u ttl blocks) s = Inr 0"
  by (auto simp: successSelectors_def successPhrase_def list_ex_iff filter_empty_conv)

lemma textPage_first_error:
  assumes "find errorPhrase blocks = Some m" "1 < length m"
  shows "spec_firstMatchedText (textPage u ttl blocks) errorSelectors = Some m"
proof -
  obtain alts rest where es: "errorSelectors = TextI alts # rest"
    by (simp add: errorSelectors_def)
  have ep: "errorPhrase = regexTestI alts"
    unfolding errorPhrase_def es by (simp add: fun_eq_iff)
  from find_filter_Cons [OF assms(1)] ep obtain bs where "filter (regexTestI alts) blocks = m # bs"
    by auto
  then have "matchedText (textPage u ttl blocks) (TextI alts) = Some m"
    by (simp add: matchedText_def textPage_def)
  with assms(2) show ?thesis unfolding es by simp
qed

lemma textPage_reason:
  assumes "regexTestI [js ''/auth/login''] u" "\<not> list_ex successPhrase blocks"
    and "find errorPhrase blocks = Some m" "1 < length m"
  shows "snd (classify user sp (textPage u ttl blocks))
           = Inr \<lparr>success = False, username = user, message = m\<rparr>"
proof -
  have "\<exists>t. classify user sp (textPage u ttl blocks)
          = (t, Inr \<lparr>success = False, username = user, message = m\<rparr>)"
    using assms(1) textPage_no_success [OF assms(2)] textPage_answers
      textPage_first_error [OF assms(3,4)]
    by (intro classify_reason) simp_all
  then show ?thesis by auto
qed

text \<open>
  Claim C3. When the driver answers the success probes, the classifier reports SUCCESS
  exactly when the URL no longer matches \<^verbatim>\<open>/auth/login\<close> or a success locator finds an
  element, and it then returns before any probe for a failure reason is made. In
  particular, on a page of text blocks, a URL that still matches with a block containing
  \<^verbatim>\<open>Welcome\<close> is a SUCCESS, and a URL that does not match is a SUCCESS without any
  success phrase.
\<close>

theorem C3_success_checked_first:
  "((\<forall>s\<in>set successSelectors. \<exists>n. count pg s = Inr n) \<longrightarrow>
      (reportedSuccess (classify user sp pg) \<longleftrightarrow>
         \<not> regexTestI [js ''/auth/login''] (url pg)
         \<or> (\<exists>s\<in>set successSelectors. \<exists>n. 0 < n \<and> count pg s = Inr n))
      \<and> (\<not> regexTestI [js ''/auth/login''] (url pg)
           \<or> (\<exists>s\<in>set successSelectors. \<exists>n. 0 < n \<and> count pg s = Inr n) \<longrightarrow>
          (\<exists>t. classify user sp pg
                 = (t, Inr \<lparr>success = True, username = user, message = message_success\<rparr>)
               \<and> \<not> list_ex failureProbe t)))
   \<and> (regexTestI [js ''/auth/login''] u \<and> list_ex (\<lambda>b. includesStr b (js ''Welcome'')) blocks \<longrightarrow>
        snd (classify user sp (textPage u ttl blocks))
          = Inr \<lparr>success = True, username = user, message = message_success\<rparr>)
   \<and> (\<not> regexTestI [js ''/auth/login''] u \<and> \<not> list_ex successPhrase blocks \<longrightarrow>
        snd (classify user sp (textPage u ttl blocks))
          = Inr \<lparr>success = True, username = user, message = message_success\<rparr>)"
proof (intro conjI impI)
  assume "\<forall>s\<in>set successSelectors. \<exists>n. count pg s = Inr n"
  then show "reportedSuccess (classify user sp pg) \<longleftrightarrow>
         \<not> regexTestI [js ''/auth/login''] (url pg)
         \<or> (\<exists>s\<in>set successSelectors. \<exists>n. 0 < n \<and> count pg s = Inr n)"
    by (rule classify_status)
next
  assume "\<forall>s\<in>set successSelectors. \<exists>n. count pg s = Inr n"
    and "\<not> regexTestI [js ''/auth/login''] (url pg)
           \<or> (\<exists>s\<in>set successSelectors. \<exists>n. 0 < n \<and> count pg s = Inr n)"
  then show "\<exists>t. classify user sp pg
                 = (t, Inr \<lparr>success = True, username = user, message = message_success\<rparr>)
               \<and> \<not> list_ex failureProbe t"
    by (rule classify_success)
next
  assume "regexTestI [js ''/auth/login''] u \<and> list_ex (\<lambda>b. includesStr b (js ''Welcome'')) blocks"
  then have "list_ex successPhrase blocks"
    by (auto simp: list_ex_iff dest: welcome_is_successPhrase)
  then show "snd (classify user sp (textPage u ttl blocks))
          = Inr \<lparr>success = True, username = user, message = message_success\<rparr>"
    by (intro textPage_success) simp
next
  assume "\<not> regexTestI [js ''/auth/login''] u \<and> \<not> list_ex successPhrase blocks"
  then show "snd (classify user sp (textPage u ttl blocks))
          = Inr \<lparr>success = True, username = user, message = message_success\<rparr>"
    by (intro textPage_success) simp
qed

text \<open>
  The hypotheses of C3 hold on the login URL with the text \<^verbatim>\<open>Welcome back\<close>, and on
  the panel's root URL with the text \<^verbatim>\<open>Servers\<close>.
\<close>

theorem C3_success_checked_first_witness:
  "regexTestI [js ''/auth/login''] LOGIN_URL
   \<and> list_ex (\<lambda>b. includesStr b (js ''Welcome'')) [js ''Welcome back'']
   \<and> snd (classify (js ''a@b.c'') (js ''after.png'') (textPage LOGIN_URL (js ''Login'') [js ''Welcome back'']))
       = Inr \<lparr>success = True, username = js ''a@b.c'', message = message_success\<rparr>
   \<and> \<not> regexTestI [js ''/auth/login''] (js ''https://ctrl.lunes.host/'')
   \<and> \<not> list_ex successPhrase [js ''Servers'']
   \<and> snd (classify (js ''a@b.c'') (js ''after.png'')
            (textPage (js ''https://ctrl.lunes.host/'') (js ''Lunes'') [js ''Servers'']))
       = Inr \<lparr>success = True, username = js ''a@b.c'', message = message_success\<rparr>"
proof -
  have a: "regexTestI [js ''/auth/login''] LOGIN_URL"
    by (simp add: regexTestI_def LOGIN_URL_def js_def canonicalize_def)
  have b: "list_ex (\<lambda>b. includesStr b (js ''Welcome'')) [js ''Welcome back'']"
    by (simp add: includesStr_def js_def)
  have c: "\<not> regexTestI [js ''/auth/login''] (js ''https://ctrl.lunes.host/'')"
    by (simp add: regexTestI_def js_def canonicalize_def)
  have d: "\<not> list_ex successPhrase [js ''Servers'']"
    by code_simp
  from a b c d
    C3_success_checked_first [where pg = quietPage and u = LOGIN_URL
      and blocks = "[js ''Welcome back'']" and user = "js ''a@b.c''" and sp = "js ''after.png''"
      and ttl = "js ''Login''"]
    C3_success_checked_first [where pg = quietPage and u = "js ''https://ctrl.lunes.host/''"
      and blocks = "[js ''Servers'']" and user = "js ''a@b.c''" and sp = "js ''after.png''"
      and ttl = "js ''Lunes''"]
  show ?thesis by blast
qed

text \<open>
  Claim C4, at a page where the code departs from it. The loop over the error locators
  stores the text of a match in \<^verbatim>\<open>errorMsg\<close> before it tests the length of the text,
  and the test only decides whether the loop stops (its comment: make sure the text is
  not empty and not a single character). On \<open>oneCharPage\<close> the URL still matches
  \<^verbatim>\<open>/auth/login\<close>, no success locator finds an element and no error locator finds a
  text longer than one code unit, so the claim gives no matched text as the reason; the
  code returns the text \<^verbatim>\<open>X\<close>, one code unit long, as the failure reason.
\<close>

theorem C4_one_character_reason:
  "spec_firstMatchedText oneCharPage errorSelectors = None
   \<and> snd (classify (js ''a@b.c'') (js ''after.png'') oneCharPage)
       = Inr \<lparr>success = False, username = js ''a@b.c'', message = js ''X''\<rparr>
   \<and> length (js ''X'') = 1"
proof -
  have "spec_firstMatchedText oneCharPage errorSelectors = None"
    by code_simp
  moreover have "snd (classify (js ''a@b.c'') (js ''after.png'') oneCharPage)
       = Inr \<lparr>success = False, username = js ''a@b.c'', message = js ''X''\<rparr>"
    by code_simp
  moreover have "length (js ''X'') = 1"
    by (simp add: js_def)
  ultimately show ?thesis by blast
qed

text \<open>The reason returned on \<open>oneCharPage\<close>, read off the statement of C4.\<close>

theorem C4_one_character_reason_witness:
  "snd (classify (js ''a@b.c'') (js ''after.png'') oneCharPage)
       = Inr \<lparr>success = False, username = js ''a@b.c'', message = js ''X''\<rparr>
   \<and> length (js ''X'') = 1"
  using C4_one_character_reason by blast

text \<open>
  Claim C9. The status of the classification is a function of the URL and of what the
  success locators find: two pages that agree on both get the same status, whatever
  the account, the screenshot path, the title and the error texts are. On a page of text
  blocks it is the stated function of the URL and the text.
\<close>

theorem C9_status_determined_by_url_and_text:
  "(url p = url q \<and> (\<forall>s\<in>set successSelectors. count p s = count q s) \<longrightarrow>
      reportedSuccess (classify user sp p) = reportedSuccess (classify user' sp' q))
   \<and> (reportedSuccess (classify user sp (textPage u ttl blocks)) \<longleftrightarrow>
        \<not> regexTestI [js ''/auth/login''] u \<or> list_ex successPhrase blocks)
   \<and> reportedSuccess (classify user sp (textPage u ttl blocks))
       = reportedSuccess (classify user' sp' (textPage u ttl' blocks))"
  using classify_depends_on [of p q user sp user' sp'] textPage_status by blast

text \<open>
  The hypotheses of C9 hold for the login page with the text \<^verbatim>\<open>Invalid credentials\<close>
  under two titles, read for two accounts.
\<close>

theorem C9_status_determined_by_url_and_text_witness:
  "url (textPage LOGIN_URL (js ''Login'') [js ''Invalid credentials''])
     = url (textPage LOGIN_URL (js ''Error'') [js ''Invalid credentials''])
   \<and> reportedSuccess (classify (js ''a@b.c'') (js ''x.png'')
         (textPage LOGIN_URL (js ''Login'') [js ''Invalid credentials'']))
     = reportedSuccess (classify (js ''d@e.f'') (js ''y.png'')
         (textPage LOGIN_URL (js ''Error'') [js ''Invalid credentials'']))"
proof -
  have a: "url (textPage LOGIN_URL (js ''Login'') [js ''Invalid credentials''])
     = url (textPage LOGIN_URL (js ''Error'') [js ''Invalid credentials''])"
    by simp
  have b: "\<forall>s\<in>set successSelectors.
      count (textPage LOGIN_URL (js ''Login'') [js ''Invalid credentials'']) s
        = count (textPage LOGIN_URL (js ''Error'') [js ''Invalid credentials'']) s"
    by (simp add: textPage_def)
  from a b
    C9_status_determined_by_url_and_text [where
      p = "textPage LOGIN_URL (js ''Login'') [js ''Invalid credentials'']"
      and q = "textPage LOGIN_URL (js ''Error'') [js ''Invalid credentials'']"
      and user = "js ''a@b.c''" and sp = "js ''x.png''" and user' = "js ''d@e.f''"
      and sp' = "js ''y.png''" and u = LOGIN_URL and ttl = "js ''Login''" and ttl' = "js ''Error''"
      and blocks = "[]"]
  show ?thesis by blast
qed

section \<open>Faults and the batch (claims C5, C6, C8, C10)\<close>

lemma yields_bnd: "(\<And>x. yields P (f x)) \<Longrightarrow> yields P (bnd m f)"
  by (cases m; cases "snd m") (simp_all add: yields_def step_simps)

lemma yields_ret: "P x \<Longrightarrow> yields P (ret x)"
  by (simp add: yields_def ret_def)

lemma yieldsD: "yields P m \<Longrightarrow> m = (t, Inr x) \<Longrightarrow> P x"
  by (simp add: yields_def)

lemma failureBranch_username: "yields (\<lambda>out. username out = user) (failureBranch user sp pg)"
  unfolding failureBranch_def
  by (intro yields_bnd yields_ret) simp

lemma classify_username: "yields (\<lambda>out. username out = user) (classify user sp pg)"
  using failureBranch_username [of user sp pg]
  by (simp add: classify_unfold yields_def split: prod.splits sum.splits)

lemma tryBody_username:
  "yields (\<lambda>out. username out = user) (tryBody user password index retryCount sc)"
  unfolding tryBody_def Let_def
  by (intro yields_bnd) (auto intro!: yields_bnd yields_ret classify_username)

lemma attemptLogin_username:
  "yields (\<lambda>out. username out = user) (attemptLogin user password index retryCount sc)"
proof -
  have "yields (\<lambda>out. username out = user)
          (tryFinally (tryCatch (tryBody user password index retryCount sc)
             (handler user index retryCount sc)) (teardown sc))"
    using tryBody_username [of user password index retryCount sc]
    by (auto simp: yields_def tryFinally_def tryCatch_def handler_eq split: prod.splits sum.splits)
  then show ?thesis
    unfolding attemptLogin_def by (intro yields_bnd)
qed

lemma attemptLogin_total:
  assumes "setupOk sc" "teardownOk sc"
  shows "\<exists>t out. attemptLogin user password index retryCount sc = (t, Inr out) \<and> username out = user"
proof -
  obtain t out where "attemptLogin user password index retryCount sc = (t, Inr out)"
    using attemptLogin_guarded [OF assms, of user password index retryCount]
    by (auto split: prod.splits sum.splits)
  with yieldsD [OF attemptLogin_username this] show ?thesis by blast
qed

lemma retryLoop_invariant:
  assumes "\<And>rc. yields P (attemptLogin user password index rc (w rc))"
  shows "retryLoop user password index w retryCount res = (t, Inr (res', n)) \<Longrightarrow>
     (case res of None \<Rightarrow> retryCount \<le> MAX_RETRIES | Some out \<Rightarrow> P out) \<Longrightarrow>
     (\<exists>out. res' = Some out \<and> P out)"
proof (induction "Suc MAX_RETRIES - retryCount" arbitrary: retryCount res t)
  case 0
  then have "retryLoop user password index w retryCount res = ([], Inr (res, retryCount))"
    by (intro retryLoop_stop) simp
  with 0 show ?case by (auto split: option.splits)
next
  case (Suc k)
  show ?case
  proof (cases "retryCount \<le> MAX_RETRIES \<and> \<not> (case res of None \<Rightarrow> False | Some r \<Rightarrow> success r)")
    case False
    with Suc.prems retryLoop_stop [OF False, of user password index w] show ?thesis
      by (auto split: option.splits)
  next
    case True
    obtain t1 r1 where a: "attemptLogin user password index retryCount (w retryCount) = (t1, r1)"
      by (cases "attemptLogin user password index retryCount (w retryCount)")
    show ?thesis
    proof (cases r1)
      case (Inl e)
      with retryLoop_fault [where w = w, OF _ _ a [unfolded Inl]] True Suc.prems(1)
      show ?thesis by simp
    next
      case (Inr out)
      from yieldsD [OF assms a [unfolded Inr]] have P: "P out" .
      from retryLoop_step [where w = w, OF _ _ a [unfolded Inr]] True Suc.prems(1)
      obtain t2 where "retryLoop user password index w (retryCount + 1) (Some out) = (t2, Inr (res', n))"
        by (cases "retryLoop user password index w (retryCount + 1) (Some out)") auto
      have "k = Suc MAX_RETRIES - (retryCount + 1)"
        using Suc.hyps(2) by arith
      from Suc.hyps(1) [OF this \<open>retryLoop user password index w (retryCount + 1) (Some out) = (t2, Inr (res', n))\<close>] P
      show ?thesis by simp
    qed
  qed
qed

lemma retryLoop_total:
  assumes "\<forall>rc \<le> MAX_RETRIES. \<exists>t out. attemptLogin user password index rc (w rc) = (t, Inr out)"
  shows "\<exists>t res' n. retryLoop user password index w retryCount res = (t, Inr (res', n))"
proof (induction "Suc MAX_RETRIES - retryCount" arbitrary: retryCount res)
  case 0
  then have "retryLoop user password index w retryCount res = ([], Inr (res, retryCount))"
    by (intro retryLoop_stop) simp
  then show ?case by blast
next
  case (Suc k)
  show ?case
  proof (cases "retryCount \<le> MAX_RETRIES \<and> \<not> (case res of None \<Rightarrow> False | Some r \<Rightarrow> success r)")
    case False
    from retryLoop_stop [OF False, of user password index w] show ?thesis by blast
  next
    case True
    with assms obtain t1 out where
      a: "attemptLogin user password index retryCount (w retryCount) = (t1, Inr out)" by blast
    have "k = Suc MAX_RETRIES - (retryCount + 1)"
      using Suc.hyps(2) by arith
    from Suc.hyps(1) [OF this, of "Some out"]
    obtain t2 res2 n where "retryLoop user password index w (retryCount + 1) (Some out) = (t2, Inr (res2, n))"
      by blast
    with retryLoop_step [where w = w, OF _ _ a] True show ?thesis by auto
  qed
qed

lemma loginWithAccount_username:
  "loginWithAccount user password index w = (t, Inr r) \<Longrightarrow> username r = user"
proof -
  assume a: "loginWithAccount user password index w = (t, Inr r)"
  then obtain res n where loop: "retryLoop user password index w 0 None = (t, Inr (res, n))"
    and r: "r = withRetries res n"
    by (cases "retryLoop user password index w 0 None")
       (auto simp: loginWithAccount_def step_simps bnd_def split: sum.splits prod.splits)
  from retryLoop_invariant [where P = "\<lambda>out. username out = user", OF attemptLogin_username loop]
  obtain out where "res = Some out" "username out = user" by auto
  with r show ?thesis
    by (simp add: withRetries_def outcome.defs result.defs)
qed

lemma loginWithAccount_total:
  assumes "\<forall>rc \<le> MAX_RETRIES. setupOk (w rc) \<and> teardownOk (w rc)"
  shows "\<exists>t r. loginWithAccount user password index w = (t, Inr r)"
proof -
  have "\<forall>rc \<le> MAX_RETRIES. \<exists>t out. attemptLogin user password index rc (w rc) = (t, Inr out)"
    using assms attemptLogin_total by blast
  from retryLoop_total [OF this, of 0 None] show ?thesis
    by (auto simp: loginWithAccount_def step_simps)
qed


lemma accountsLoop_stop:
  "\<not> i < length accountEntries \<Longrightarrow> accountsLoop w accountEntries i results = ([], Inr results)"
  by (simp add: accountsLoop.simps [of w accountEntries i results] step_simps)

lemma accountsLoop_unfold:
  "i < length accountEntries \<Longrightarrow>
   accountsLoop w accountEntries i results =
     bnd (loginWithAccount (fst (accountEntries ! i)) (snd (accountEntries ! i)) i (attempts w i)) (\<lambda>r.
     bnd (if i < length accountEntries - 1 then call (Sleep (5000 + jitter w i)) (Inr ()) else ret ()) (\<lambda>_.
       accountsLoop w accountEntries (i + 1) (results @ [r])))"
  by (simp add: accountsLoop.simps [of w accountEntries i results] split: prod.splits)

lemma accountsLoop_usernames:
  "accountsLoop w accountEntries i results = (t, Inr rs) \<Longrightarrow>
   \<exists>new. rs = results @ new \<and> map username new = map fst (drop i accountEntries)"
proof (induction "length accountEntries - i" arbitrary: i results t)
  case 0
  then show ?case by (simp add: accountsLoop_stop)
next
  case (Suc k)
  then have i: "i < length accountEntries" by simp
  obtain t1 r1 where a:
    "loginWithAccount (fst (accountEntries ! i)) (snd (accountEntries ! i)) i (attempts w i) = (t1, r1)"
    by (cases "loginWithAccount (fst (accountEntries ! i)) (snd (accountEntries ! i)) i (attempts w i)")
  show ?case
  proof (cases r1)
    case (Inl e)
    with Suc.prems a show ?thesis
      by (simp add: accountsLoop_unfold [OF i] step_simps)
  next
    case (Inr r)
    from loginWithAccount_username [OF a [unfolded Inr]]
    have u: "username r = fst (accountEntries ! i)" .
    from Suc.prems a Inr obtain t2 where
      rest: "accountsLoop w accountEntries (i + 1) (results @ [r]) = (t2, Inr rs)"
      by (cases "accountsLoop w accountEntries (i + 1) (results @ [r])")
         (auto simp: accountsLoop_unfold [OF i] step_simps split: if_splits)
    have "k = length accountEntries - (i + 1)"
      using Suc.hyps(2) by arith
    from Suc.hyps(1) [OF this rest] obtain new where
      "rs = (results @ [r]) @ new" "map username new = map fst (drop (i + 1) accountEntries)"
      by blast
    with u i show ?thesis
      by (simp add: Cons_nth_drop_Suc [symmetric])
  qed
qed

lemma accountsLoop_total:
  assumes "\<forall>i < length accountEntries. \<forall>rc \<le> MAX_RETRIES.
             setupOk (attempts w i rc) \<and> teardownOk (attempts w i rc)"
  shows "\<exists>t rs. accountsLoop w accountEntries i results = (t, Inr rs)"
proof (induction "length accountEntries - i" arbitrary: i results)
  case 0
  then show ?case by (simp add: accountsLoop_stop)
next
  case (Suc k)
  then have i: "i < length accountEntries" by simp
  with assms have "\<forall>rc \<le> MAX_RETRIES. setupOk (attempts w i rc) \<and> teardownOk (attempts w i rc)"
    by blast
  from loginWithAccount_total [OF this] obtain t1 r where a:
    "loginWithAccount (fst (accountEntries ! i)) (snd (accountEntries ! i)) i (attempts w i) = (t1, Inr r)"
    by blast
  have "k = length accountEntries - (i + 1)"
    using Suc.hyps(2) by arith
  from Suc.hyps(1) [OF this, of "results @ [r]"] obtain t2 rs where
    "accountsLoop w accountEntries (i + 1) (results @ [r]) = (t2, Inr rs)"
    by blast
  with a show ?case
    by (simp add: accountsLoop_unfold [OF i] step_simps)
qed

lemma mainBody_accounts:
  assumes "env (js ''USERNAME_AND_PASSWORD'') = Some cfg" "cfg \<noteq> []" "parse cfg = Some a"
    and "objectEntries a = Inr accountEntries" "typeof a = ''object''" "accountEntries \<noteq> []"
  shows "mainBody env parse w =
     bnd (accountsLoop w accountEntries 0 []) (\<lambda>results.
     bnd (sendSummaryNotification results) (\<lambda>_. ret results))"
proof -
  from assms(4) have "a \<noteq> JNull" by auto
  with assms show ?thesis
    by (simp add: mainBody_def envOrThrow_def step_simps)
qed

lemma mainBody_results:
  assumes "env (js ''USERNAME_AND_PASSWORD'') = Some cfg" "cfg \<noteq> []" "parse cfg = Some a"
    and "objectEntries a = Inr accountEntries" "typeof a = ''object''" "accountEntries \<noteq> []"
    and "mainBody env parse w = (t, Inr rs)"
  shows "map username rs = map fst accountEntries \<and> last t = Summary rs"
proof -
  note mb = mainBody_accounts [where env = env and parse = parse and cfg = cfg and w = w, OF assms(1-6)]
  obtain t1 r1 where l: "accountsLoop w accountEntries 0 [] = (t1, r1)"
    by (cases "accountsLoop w accountEntries 0 []")
  show ?thesis
  proof (cases r1)
    case (Inl e)
    with mb l assms(7) show ?thesis by (simp add: step_simps)
  next
    case (Inr rs')
    with mb l assms(7) have eq: "rs' = rs" "t = t1 @ [Summary rs]"
      by (auto simp: step_simps sendSummaryNotification_def)
    from accountsLoop_usernames [OF l [unfolded Inr]] eq show ?thesis by auto
  qed
qed

lemma mainBody_total:
  assumes "env (js ''USERNAME_AND_PASSWORD'') = Some cfg" "cfg \<noteq> []" "parse cfg = Some a"
    and "objectEntries a = Inr accountEntries" "typeof a = ''object''" "accountEntries \<noteq> []"
    and "\<forall>i < length accountEntries. \<forall>rc \<le> MAX_RETRIES.
             setupOk (attempts w i rc) \<and> teardownOk (attempts w i rc)"
  shows "\<exists>t rs. mainBody env parse w = (t, Inr rs)"
proof -
  from accountsLoop_total [OF assms(7), of 0 "[]"] obtain t rs where
    "accountsLoop w accountEntries 0 [] = (t, Inr rs)" by blast
  then show ?thesis
    by (simp add: mainBody_accounts [where env = env and parse = parse and cfg = cfg, OF assms(1-6)]
        step_simps sendSummaryNotification_def)
qed

lemma okScenario_facts:
  "setupOk okScenario" "teardownOk okScenario"
  by (simp_all add: okScenario_def botScenario_def setupOk_def teardownOk_def)

lemma quietPage_success:
  "snd (classify user sp quietPage)
     = Inr \<lparr>success = True, username = user, message = message_success\<rparr>"
  unfolding quietPage_def
  by (intro textPage_success) (simp add: regexTestI_def js_def canonicalize_def)

lemma tryBody_ok:
  "snd (tryBody user password index retryCount okScenario)
     = Inr \<lparr>success = True, username = user, message = message_success\<rparr>"
  by (simp add: tryBody_def okScenario_def botScenario_def step_simps swallow_def Let_def
      quietPage_success)

lemma attemptLogin_ok:
  "snd (attemptLogin user password index retryCount okScenario)
     = Inr \<lparr>success = True, username = user, message = message_success\<rparr>"
  using tryBody_ok [of user password index retryCount]
  by (cases "tryBody user password index retryCount okScenario")
     (simp add: attemptLogin_guarded [OF okScenario_facts])

lemma loginWithAccount_first_success:
  assumes "snd (attemptLogin user password index 0 (w 0)) = Inr out" "success out"
  shows "snd (loginWithAccount user password index w)
     = Inr (outcome.extend out (result.fields 0))"
proof -
  obtain t1 where a: "attemptLogin user password index 0 (w 0) = (t1, Inr out)"
    using assms(1) by (cases "attemptLogin user password index 0 (w 0)") simp
  have "retryLoop user password index w (0 + 1) (Some out) = ([], Inr (Some out, 0 + 1))"
    using assms(2) by (intro retryLoop_stop) simp
  with retryLoop_step [where w = w and retryCount = 0 and res = None, OF _ _ a]
  show ?thesis
    by (simp add: loginWithAccount_def step_simps withRetries_def)
qed

lemma loginWithAccount_ok:
  "snd (loginWithAccount user password index (\<lambda>rc. okScenario))
     = Inr \<lparr>success = True, username = user, message = message_success, retries = 0\<rparr>"
  using loginWithAccount_first_success [where w = "\<lambda>rc. okScenario", OF attemptLogin_ok]
  by (simp add: outcome.defs result.defs)

lemma accountsLoop_single:
  "snd (accountsLoop w [(user, password)] 0 [])
     = map_sum id (\<lambda>r. [r]) (snd (loginWithAccount user password 0 (attempts w 0)))"
  by (cases "loginWithAccount user password 0 (attempts w 0)";
      cases "snd (loginWithAccount user password 0 (attempts w 0))")
     (simp_all add: accountsLoop_unfold accountsLoop_stop step_simps)

lemma envOf_parseOf_facts:
  "cfg \<noteq> [] \<Longrightarrow> envOf cfg (js ''USERNAME_AND_PASSWORD'') = Some cfg"
  "parseOf cfg v cfg = Some v"
  by (simp_all add: envOf_def parseOf_def)

lemma mainBody_single:
  assumes "cfg \<noteq> []"
  shows "snd (mainBody (envOf cfg) (parseOf cfg (JObject [(user, password)])) w)
     = map_sum id (\<lambda>r. [r]) (snd (loginWithAccount user password 0 (attempts w 0)))"
proof -
  have "mainBody (envOf cfg) (parseOf cfg (JObject [(user, password)])) w =
     bnd (accountsLoop w [(user, password)] 0 []) (\<lambda>results.
     bnd (sendSummaryNotification results) (\<lambda>_. ret results))"
    using assms
    by (intro mainBody_accounts [where cfg = cfg and a = "JObject [(user, password)]"])
       (simp_all add: envOf_parseOf_facts)
  with accountsLoop_single [of w user password] show ?thesis
    by (cases "accountsLoop w [(user, password)] 0 []";
        cases "snd (accountsLoop w [(user, password)] 0 [])")
       (auto simp: step_simps sendSummaryNotification_def)
qed

lemma main_exit:
  "snd (main env parse w) =
     (case snd (mainBody env parse w) of
        Inl e \<Rightarrow> 1
      | Inr results \<Rightarrow> if list_ex (\<lambda>r. \<not> success r) results then 1 else 0)"
  by (simp add: main_def notifyTelegram_eq split: prod.splits sum.splits)

text \<open>
  Claim C6. \<^verbatim>\<open>main\<close> leaves the exit code 0 exactly when it has collected the
  Outcomes of the batch and every one of them is a SUCCESS; otherwise it leaves 1, in
  particular when an Outcome is a FAILURE and when the run ended in the handler of the
  initialization failure.
\<close>

theorem C6_exit_code:
  "(snd (main env parse w) = 0 \<longleftrightarrow>
      (\<exists>t rs. mainBody env parse w = (t, Inr rs) \<and> (\<forall>r\<in>set rs. success r)))
   \<and> (snd (main env parse w) \<noteq> 0 \<longrightarrow> snd (main env parse w) = 1)
   \<and> ((\<exists>t rs. mainBody env parse w = (t, Inr rs) \<and> (\<exists>r\<in>set rs. \<not> success r)) \<longrightarrow>
        snd (main env parse w) = 1)
   \<and> ((\<exists>t e. mainBody env parse w = (t, Inl e)) \<longrightarrow> snd (main env parse w) = 1)"
  by (cases "mainBody env parse w"; cases "snd (mainBody env parse w)")
     (auto simp: main_exit list_ex_iff)

text \<open>
  The hypotheses of C6 hold for a batch of one account whose login succeeds, which exits
  with 0, and for one whose attempts all meet the bot-check page, which exits with 1.
\<close>

theorem C6_exit_code_witness:
  "snd (mainBody (envOf (js ''{}'')) (parseOf (js ''{}'') (JObject [(js ''a@b.c'', JString (js ''pw''))]))
          (worldOf okScenario))
     = Inr [\<lparr>success = True, username = js ''a@b.c'', message = message_success, retries = 0\<rparr>]
   \<and> snd (main (envOf (js ''{}'')) (parseOf (js ''{}'') (JObject [(js ''a@b.c'', JString (js ''pw''))]))
          (worldOf okScenario)) = 0"
proof -
  let ?E = "envOf (js ''{}'')"
  let ?P = "parseOf (js ''{}'') (JObject [(js ''a@b.c'', JString (js ''pw''))])"
  have ne: "js ''{}'' \<noteq> []" by (simp add: js_def)
  have m: "snd (mainBody ?E ?P (worldOf okScenario))
     = Inr [\<lparr>success = True, username = js ''a@b.c'', message = message_success, retries = 0\<rparr>]"
    by (simp add: mainBody_single [OF ne] worldOf_def loginWithAccount_ok)
  then have "\<exists>t rs. mainBody ?E ?P (worldOf okScenario) = (t, Inr rs) \<and> (\<forall>r\<in>set rs. success r)"
    by (cases "mainBody ?E ?P (worldOf okScenario)") auto
  with C6_exit_code [of ?E ?P "worldOf okScenario"] m show ?thesis
    by blast
qed

lemma attemptLogin_noBrowser:
  "attemptLogin user password index retryCount noBrowserScenario
     = ([Launch], Inl (Fault (js ''Error'') (js ''Executable not found'')))"
  by (simp add: attemptLogin_def noBrowserScenario_def step_simps)

lemma attemptLogin_closeFault:
  "snd (attemptLogin user password index retryCount closeFaultScenario)
     = Inl (Fault (js ''Error'') (js ''Target closed''))"
  by (simp add: attemptLogin_def closeFaultScenario_def okScenario_def botScenario_def
      teardown_def tryFinally_def step_simps split: prod.splits)

lemma loginWithAccount_first_fault:
  assumes "snd (attemptLogin user password index 0 (w 0)) = Inl e"
  shows "loginWithAccount user password index w
     = (fst (attemptLogin user password index 0 (w 0)), Inl e)"
proof -
  have a: "attemptLogin user password index 0 (w 0)
             = (fst (attemptLogin user password index 0 (w 0)), Inl e)"
    using assms by (cases "attemptLogin user password index 0 (w 0)") simp
  from retryLoop_fault [where w = w and retryCount = 0 and res = None, OF _ _ a]
  show ?thesis
    by (simp add: loginWithAccount_def step_simps)
qed

lemma mainBody_first_fault:
  assumes "cfg \<noteq> []" "snd (attemptLogin user password 0 0 (attempts w 0 0)) = Inl e"
  shows "mainBody (envOf cfg) (parseOf cfg (JObject [(user, password)])) w
     = (fst (attemptLogin user password 0 0 (attempts w 0 0)), Inl e)"
proof -
  have "mainBody (envOf cfg) (parseOf cfg (JObject [(user, password)])) w =
     bnd (accountsLoop w [(user, password)] 0 []) (\<lambda>results.
     bnd (sendSummaryNotification results) (\<lambda>_. ret results))"
    using assms(1)
    by (intro mainBody_accounts [where cfg = cfg and a = "JObject [(user, password)]"])
       (simp_all add: envOf_parseOf_facts)
  with loginWithAccount_first_fault [where w = "attempts w 0", OF assms(2)] show ?thesis
    by (simp add: accountsLoop_unfold step_simps)
qed

lemma snd_bnd:
  "snd (bnd m f) = (case snd m of Inl e \<Rightarrow> Inl e | Inr x \<Rightarrow> snd (f x))"
  by (cases m; cases "snd m") (simp_all add: step_simps)

lemma accountsLoop_all_ok:
  "snd (accountsLoop (worldOf okScenario) accountEntries i results)
     = Inr (results @ map okResult (drop i accountEntries))"
proof (induction "length accountEntries - i" arbitrary: i results)
  case 0
  then show ?case by (simp add: accountsLoop_stop)
next
  case (Suc k)
  then have i: "i < length accountEntries" by simp
  have k: "k = length accountEntries - (i + 1)"
    using Suc.hyps(2) by arith
  have l: "snd (loginWithAccount (fst (accountEntries ! i)) (snd (accountEntries ! i)) i
             (attempts (worldOf okScenario) i)) = Inr (okResult (accountEntries ! i))"
    by (simp add: worldOf_def loginWithAccount_ok okResult_def)
  have "snd (accountsLoop (worldOf okScenario) accountEntries i results)
      = snd (accountsLoop (worldOf okScenario) accountEntries (i + 1)
               (results @ [okResult (accountEntries ! i)]))"
    by (simp add: accountsLoop_unfold [OF i] snd_bnd l step_simps)
  also have "\<dots> = Inr ((results @ [okResult (accountEntries ! i)])
                       @ map okResult (drop (i + 1) accountEntries))"
    by (rule Suc.hyps(1) [OF k])
  finally show ?case
    using i by (simp add: Cons_nth_drop_Suc [symmetric])
qed

lemma mainBody_all_ok:
  assumes "cfg \<noteq> []" "members \<noteq> []"
  shows "snd (mainBody (envOf cfg) (parseOf cfg (JObject members)) (worldOf okScenario))
     = Inr (map okResult (ownEntries members))"
proof -
  have "mainBody (envOf cfg) (parseOf cfg (JObject members)) (worldOf okScenario) =
     bnd (accountsLoop (worldOf okScenario) (ownEntries members) 0 []) (\<lambda>results.
     bnd (sendSummaryNotification results) (\<lambda>_. ret results))"
    using assms
    by (intro mainBody_accounts [where cfg = cfg and a = "JObject members"])
       (simp_all add: envOf_parseOf_facts ownEntries_nonempty)
  then show ?thesis
    by (simp add: snd_bnd accountsLoop_all_ok sendSummaryNotification_def step_simps)
qed

text \<open>
  Claim C5, as the code has it. For a non-empty account object, a batch that reaches its
  summary has collected exactly one Outcome per identity of the object, in the order in
  which \<^verbatim>\<open>Object.entries\<close> enumerates the object: identities that are array indices
  first, in ascending numeric order, then the others in the order supplied. When the
  identities are distinct and none is an array index (e-mail addresses, say), that is the
  order supplied. The batch reaches its summary whenever no browser launch and no
  teardown faults, whatever else the attempts do; a fault of a launch or of a teardown
  leaves \<^verbatim>\<open>attemptLogin\<close> and ends the batch without Outcomes.
\<close>

theorem C5_one_outcome_per_account:
  assumes "env (js ''USERNAME_AND_PASSWORD'') = Some cfg" "cfg \<noteq> []"
    and "parse cfg = Some (JObject members)" "members \<noteq> []"
  shows "(\<forall>t rs. mainBody env parse w = (t, Inr rs) \<longrightarrow>
            map username rs = map fst (ownEntries members)
            \<and> distinct (map username rs) \<and> set (map username rs) = set (map fst members)
            \<and> last t = Summary rs)
       \<and> (distinct (map fst members) \<and> (\<forall>k\<in>set (map fst members). arrayIndex k = None) \<longrightarrow>
            (\<forall>t rs. mainBody env parse w = (t, Inr rs) \<longrightarrow>
               map username rs = map fst members \<and> length rs = length members))
       \<and> ((\<forall>i < length (ownEntries members). \<forall>rc \<le> MAX_RETRIES.
              setupOk (attempts w i rc) \<and> teardownOk (attempts w i rc)) \<longrightarrow>
           (\<exists>t rs. mainBody env parse w = (t, Inr rs)))"
proof -
  have oe: "objectEntries (JObject members) = Inr (ownEntries members)"
    and ty: "typeof (JObject members) = ''object''"
    by simp_all
  have ne: "ownEntries members \<noteq> []"
    using assms(4) by (rule ownEntries_nonempty)
  have order: "map username rs = map fst (ownEntries members) \<and> last t = Summary rs"
    if "mainBody env parse w = (t, Inr rs)" for t rs
    using mainBody_results [where env = env and parse = parse and cfg = cfg
        and a = "JObject members", OF assms(1-3) oe ty ne that] .
  have first: "\<forall>t rs. mainBody env parse w = (t, Inr rs) \<longrightarrow>
            map username rs = map fst (ownEntries members)
            \<and> distinct (map username rs) \<and> set (map username rs) = set (map fst members)
            \<and> last t = Summary rs"
    using order ownEntries_keys_distinct [of members] ownEntries_keys_set [of members]
    by simp
  have second: "\<forall>t rs. mainBody env parse w = (t, Inr rs) \<longrightarrow>
               map username rs = map fst members \<and> length rs = length members"
    if "distinct (map fst members) \<and> (\<forall>k\<in>set (map fst members). arrayIndex k = None)"
  proof (intro allI impI)
    fix t rs
    assume "mainBody env parse w = (t, Inr rs)"
    with order that have m: "map username rs = map fst members"
      by (simp add: ownEntries_supplied_order)
    then have "length (map username rs) = length (map fst members)" by (rule arg_cong)
    then have "length rs = length members" by simp
    with m show "map username rs = map fst members \<and> length rs = length members" by simp
  qed
  have third: "\<exists>t rs. mainBody env parse w = (t, Inr rs)"
    if "\<forall>i < length (ownEntries members). \<forall>rc \<le> MAX_RETRIES.
              setupOk (attempts w i rc) \<and> teardownOk (attempts w i rc)"
    using mainBody_total [where env = env and parse = parse and cfg = cfg
        and a = "JObject members", OF assms(1-3) oe ty ne that] .
  from first second third show ?thesis by blast
qed

text \<open>
  The hypotheses of C5 hold for a batch of two e-mail accounts whose logins succeed: the
  Outcomes come in the order supplied.
\<close>

theorem C5_one_outcome_per_account_witness:
  "envOf (js ''{}'') (js ''USERNAME_AND_PASSWORD'') = Some (js ''{}'')
   \<and> js ''{}'' \<noteq> []
   \<and> parseOf (js ''{}'') (JObject [(js ''b@x.y'', JString (js ''p'')), (js ''a@x.y'', JString (js ''q''))])
         (js ''{}'')
       = Some (JObject [(js ''b@x.y'', JString (js ''p'')), (js ''a@x.y'', JString (js ''q''))])
   \<and> distinct (map fst [(js ''b@x.y'', JString (js ''p'')), (js ''a@x.y'', JString (js ''q''))])
   \<and> arrayIndex (js ''b@x.y'') = None \<and> arrayIndex (js ''a@x.y'') = None
   \<and> (\<exists>t rs. mainBody (envOf (js ''{}''))
                 (parseOf (js ''{}'') (JObject [(js ''b@x.y'', JString (js ''p'')), (js ''a@x.y'', JString (js ''q''))]))
                 (worldOf okScenario) = (t, Inr rs)
            \<and> map username rs
                = map fst [(js ''b@x.y'', JString (js ''p'')), (js ''a@x.y'', JString (js ''q''))]
            \<and> length rs = length [(js ''b@x.y'', JString (js ''p'')), (js ''a@x.y'', JString (js ''q''))])"
proof -
  let ?E = "envOf (js ''{}'')"
  let ?ms = "[(js ''b@x.y'', JString (js ''p'')), (js ''a@x.y'', JString (js ''q''))]"
  let ?P = "parseOf (js ''{}'') (JObject ?ms)"
  have ne: "js ''{}'' \<noteq> []" by (simp add: js_def)
  have e: "?E (js ''USERNAME_AND_PASSWORD'') = Some (js ''{}'')"
    and p: "?P (js ''{}'') = Some (JObject ?ms)"
    using ne by (simp_all add: envOf_parseOf_facts)
  have k: "?ms \<noteq> []" by simp
  have d: "distinct (map fst ?ms)" by (simp add: js_def)
  have i1: "arrayIndex (js ''b@x.y'') = None" and i2: "arrayIndex (js ''a@x.y'') = None"
    by code_simp+
  then have i: "\<forall>k\<in>set (map fst ?ms). arrayIndex k = None" by simp
  have ok: "\<forall>i < length (ownEntries ?ms). \<forall>rc \<le> MAX_RETRIES.
      setupOk (attempts (worldOf okScenario) i rc) \<and> teardownOk (attempts (worldOf okScenario) i rc)"
    by (simp add: worldOf_def okScenario_facts)
  from C5_one_outcome_per_account [where env = ?E and parse = ?P and cfg = "js ''{}''"
      and w = "worldOf okScenario", OF e ne p k] ok d i e ne p i1 i2
  show ?thesis by blast
qed

text \<open>
  Claim C5 as stated fails twice. The accounts \<^verbatim>\<open>b@x.y\<close>, \<^verbatim>\<open>2\<close>, \<^verbatim>\<open>1\<close>, supplied
  in this order, all log in, and their Outcomes come in the order \<^verbatim>\<open>1\<close>, \<^verbatim>\<open>2\<close>,
  \<^verbatim>\<open>b@x.y\<close>. And when the browser cannot be launched for the only account of a batch,
  the fault leaves the attempt and the loop of \<^verbatim>\<open>main\<close>: the batch ends in the handler
  of the initialization failure and has no Outcome for the account.
\<close>

theorem C5_order_and_launch_fault_counterexample:
  "map_sum id (map username)
      (snd (mainBody (envOf (js ''{}''))
              (parseOf (js ''{}'')
                 (JObject [(js ''b@x.y'', JString (js ''p'')), (js ''2'', JString (js ''q'')),
                           (js ''1'', JString (js ''r''))]))
              (worldOf okScenario)))
     = Inr [js ''1'', js ''2'', js ''b@x.y'']
   \<and> mainBody (envOf (js ''{}'')) (parseOf (js ''{}'') (JObject [(js ''a@b.c'', JString (js ''pw''))]))
       (worldOf noBrowserScenario)
     = ([Launch], Inl (Fault (js ''Error'') (js ''Executable not found'')))
   \<and> main (envOf (js ''{}'')) (parseOf (js ''{}'') (JObject [(js ''a@b.c'', JString (js ''pw''))]))
       (worldOf noBrowserScenario)
     = ([Launch, Notify False stage_init (js ''Executable not found'') None (js ''N/A'')], 1)"
proof -
  have ne: "js ''{}'' \<noteq> []" by (simp add: js_def)
  have o: "ownEntries [(js ''b@x.y'', JString (js ''p'')), (js ''2'', JString (js ''q'')),
                      (js ''1'', JString (js ''r''))]
      = [(js ''1'', JString (js ''r'')), (js ''2'', JString (js ''q'')),
         (js ''b@x.y'', JString (js ''p''))]"
    by code_simp
  have first: "map_sum id (map username)
      (snd (mainBody (envOf (js ''{}''))
              (parseOf (js ''{}'')
                 (JObject [(js ''b@x.y'', JString (js ''p'')), (js ''2'', JString (js ''q'')),
                           (js ''1'', JString (js ''r''))]))
              (worldOf okScenario)))
     = Inr [js ''1'', js ''2'', js ''b@x.y'']"
    by (simp add: mainBody_all_ok [OF ne] o okResult_def)
  have second: "mainBody (envOf (js ''{}'')) (parseOf (js ''{}'') (JObject [(js ''a@b.c'', JString (js ''pw''))]))
       (worldOf noBrowserScenario)
     = ([Launch], Inl (Fault (js ''Error'') (js ''Executable not found'')))"
    using mainBody_first_fault [where w = "worldOf noBrowserScenario", OF ne]
    by (simp add: worldOf_def attemptLogin_noBrowser)
  then have "main (envOf (js ''{}'')) (parseOf (js ''{}'') (JObject [(js ''a@b.c'', JString (js ''pw''))]))
       (worldOf noBrowserScenario)
     = ([Launch, Notify False stage_init (js ''Executable not found'') None (js ''N/A'')], 1)"
    by (simp add: main_def notifyTelegram_eq)
  with first second show ?thesis by simp
qed

lemma matchesAt_refl: "matchesAt f m m"
  by (induction m) simp_all

lemma search_suffix: "search f m (a @ m)"
proof (induction a)
  case Nil
  show ?case by (cases m) (simp_all add: matchesAt_refl)
next
  case (Cons c a)
  then show ?case by simp
qed

lemma attemptLogin_absorbs:
  assumes "setupOk sc" "teardownOk sc" "tryBody user password index retryCount sc = (t, Inl e)"
  shows "attemptLogin user password index retryCount sc =
     ([Launch, NewContext, NewPage] @ t @ handlerTrace user index retryCount sc e
        @ [CloseContext, CloseBrowser],
      Inr \<lparr>success = False, username = user, message = message_exception_prefix @ errMessage e\<rparr>)"
  by (simp add: attemptLogin_guarded [OF assms(1,2)] assms(3))

text \<open>
  Claim C8, as the code has it. When launching and closing the browser do not fault,
  \<^verbatim>\<open>attemptLogin\<close> always returns an Outcome, and every fault thrown inside its
  \<^verbatim>\<open>try\<close> block, from the navigation to the classification, is notified with its message
  and turned into a FAILURE whose reason ends with the fault's message; a fault of
  the navigation is one of them.
\<close>

theorem C8_faults_in_try_block_absorbed:
  assumes "setupOk sc" "teardownOk sc"
  shows "(\<exists>t out. attemptLogin user password index retryCount sc = (t, Inr out))
       \<and> (\<forall>t e. tryBody user password index retryCount sc = (t, Inl e) \<longrightarrow>
            snd (attemptLogin user password index retryCount sc)
              = Inr \<lparr>success = False, username = user,
                     message = message_exception_prefix @ errMessage e\<rparr>
            \<and> includesStr (message_exception_prefix @ errMessage e) (errMessage e)
            \<and> list_ex (\<lambda>ev. case ev of Notify ok stage msg sp u \<Rightarrow>
                   \<not> ok \<and> stage = stage_exception
                   \<and> msg = (if errMessage e \<noteq> [] then errMessage e else errorToString e)
                 | _ \<Rightarrow> False) (fst (attemptLogin user password index retryCount sc)))
       \<and> (\<forall>e. goto sc = Inl e \<longrightarrow>
            snd (attemptLogin user password index retryCount sc)
              = Inr \<lparr>success = False, username = user,
                     message = message_exception_prefix @ errMessage e\<rparr>)"
proof (intro conjI allI impI)
  from attemptLogin_total [OF assms]
  show "\<exists>t out. attemptLogin user password index retryCount sc = (t, Inr out)" by blast
next
  fix t e
  assume b: "tryBody user password index retryCount sc = (t, Inl e)"
  note a = attemptLogin_absorbs [OF assms b]
  from a show "snd (attemptLogin user password index retryCount sc)
              = Inr \<lparr>success = False, username = user,
                     message = message_exception_prefix @ errMessage e\<rparr>"
    by simp
  show "includesStr (message_exception_prefix @ errMessage e) (errMessage e)"
    by (simp add: includesStr_def search_suffix)
  from a show "list_ex (\<lambda>ev. case ev of Notify ok stage msg sp u \<Rightarrow>
                   \<not> ok \<and> stage = stage_exception
                   \<and> msg = (if errMessage e \<noteq> [] then errMessage e else errorToString e)
                 | _ \<Rightarrow> False) (fst (attemptLogin user password index retryCount sc))"
    by (simp add: handlerTrace_def list_ex_iff)
next
  fix e
  assume "goto sc = Inl e"
  then have "tryBody user password index retryCount sc = ([Goto LOGIN_URL], Inl e)"
    by (simp add: tryBody_def step_simps)
  from attemptLogin_absorbs [OF assms this]
  show "snd (attemptLogin user password index retryCount sc)
              = Inr \<lparr>success = False, username = user,
                     message = message_exception_prefix @ errMessage e\<rparr>"
    by simp
qed

text \<open>The hypotheses of C8 hold for an attempt whose navigation times out.\<close>

theorem C8_faults_in_try_block_absorbed_witness:
  "setupOk timeoutScenario \<and> teardownOk timeoutScenario
   \<and> goto timeoutScenario = Inl (Fault (js ''TimeoutError'') (js ''Timeout 60000ms exceeded''))
   \<and> snd (attemptLogin (js ''a@b.c'') (JString (js ''pw'')) 0 0 timeoutScenario)
       = Inr \<lparr>success = False, username = js ''a@b.c'',
              message = message_exception_prefix
                @ errMessage (Fault (js ''TimeoutError'') (js ''Timeout 60000ms exceeded''))\<rparr>"
proof -
  have s: "setupOk timeoutScenario" and t: "teardownOk timeoutScenario"
    and g: "goto timeoutScenario = Inl (Fault (js ''TimeoutError'') (js ''Timeout 60000ms exceeded''))"
    by (simp_all add: timeoutScenario_def okScenario_def botScenario_def setupOk_def teardownOk_def)
  from C8_faults_in_try_block_absorbed [OF s t, of "js ''a@b.c''" "JString (js ''pw'')" 0 0] s t g
  show ?thesis by blast
qed

text \<open>
  Claim C8 as stated fails: a fault thrown when the browsing context is closed, in the
  \<^verbatim>\<open>finally\<close> block, and a fault thrown when the browser is launched, before the
  \<^verbatim>\<open>try\<close> block, leave \<^verbatim>\<open>attemptLogin\<close>; the batch then ends in the handler of the
  initialization failure.
\<close>

theorem C8_teardown_fault_counterexample:
  "snd (attemptLogin (js ''a@b.c'') (JString (js ''pw'')) 0 0 closeFaultScenario)
     = Inl (Fault (js ''Error'') (js ''Target closed''))
   \<and> snd (attemptLogin (js ''a@b.c'') (JString (js ''pw'')) 0 0 noBrowserScenario)
     = Inl (Fault (js ''Error'') (js ''Executable not found''))
   \<and> snd (mainBody (envOf (js ''{}'')) (parseOf (js ''{}'') (JObject [(js ''a@b.c'', JString (js ''pw''))]))
            (worldOf closeFaultScenario))
     = Inl (Fault (js ''Error'') (js ''Target closed''))
   \<and> snd (main (envOf (js ''{}'')) (parseOf (js ''{}'') (JObject [(js ''a@b.c'', JString (js ''pw''))]))
            (worldOf closeFaultScenario)) = 1"
proof -
  have ne: "js ''{}'' \<noteq> []" by (simp add: js_def)
  have m: "snd (mainBody (envOf (js ''{}'')) (parseOf (js ''{}'') (JObject [(js ''a@b.c'', JString (js ''pw''))]))
            (worldOf closeFaultScenario))
     = Inl (Fault (js ''Error'') (js ''Target closed''))"
    using mainBody_first_fault [where w = "worldOf closeFaultScenario", OF ne]
    by (simp add: worldOf_def attemptLogin_closeFault)
  then show ?thesis
    by (simp add: main_exit attemptLogin_closeFault attemptLogin_noBrowser)
qed

lemma fst_bnd_prefix: "\<exists>t. fst (bnd m f) = fst m @ t"
  by (cases m; cases "snd m") (simp_all add: step_simps)

lemma loginWithAccount_prefix:
  "\<exists>t. fst (loginWithAccount user password index w)
          = fst (attemptLogin user password index 0 (w 0)) @ t"
proof -
  have "retryLoop user password index w 0 None =
      bnd (attemptLogin user password index 0 (w 0)) (\<lambda>r.
        retryLoop user password index w (0 + 1) (Some r))"
    by (simp add: retryLoop.simps [of user password index w 0 None] step_simps)
  with fst_bnd_prefix obtain t1 where
    "fst (retryLoop user password index w 0 None) = fst (attemptLogin user password index 0 (w 0)) @ t1"
    by metis
  moreover obtain t2 where "fst (loginWithAccount user password index w)
      = fst (retryLoop user password index w 0 None) @ t2"
    unfolding loginWithAccount_def using fst_bnd_prefix by blast
  ultimately show ?thesis by simp
qed

lemma main_prefix:
  assumes "env (js ''USERNAME_AND_PASSWORD'') = Some cfg" "cfg \<noteq> []" "parse cfg = Some a"
    and "objectEntries a = Inr ((user, password) # rest)" "typeof a = ''object''"
  shows "\<exists>t. fst (main env parse w) = fst (attemptLogin user password 0 0 (attempts w 0 0)) @ t"
proof -
  have mb: "mainBody env parse w =
     bnd (accountsLoop w ((user, password) # rest) 0 []) (\<lambda>results.
     bnd (sendSummaryNotification results) (\<lambda>_. ret results))"
    by (rule mainBody_accounts [where env = env and parse = parse and cfg = cfg and a = a,
          OF assms(1-5)]) simp
  have "accountsLoop w ((user, password) # rest) 0 [] =
     bnd (loginWithAccount user password 0 (attempts w 0)) (\<lambda>r.
     bnd (if 0 < length ((user, password) # rest) - 1 then call (Sleep (5000 + jitter w 0)) (Inr ())
          else ret ()) (\<lambda>_.
       accountsLoop w ((user, password) # rest) (0 + 1) ([] @ [r])))"
    using accountsLoop_unfold [where i = 0 and accountEntries = "(user, password) # rest"
        and results = "[]" and w = w]
    by simp
  then obtain t1 where "fst (accountsLoop w ((user, password) # rest) 0 [])
      = fst (loginWithAccount user password 0 (attempts w 0)) @ t1"
    using fst_bnd_prefix [of "loginWithAccount user password 0 (attempts w 0)"] by metis
  moreover obtain t2 where "fst (mainBody env parse w)
      = fst (accountsLoop w ((user, password) # rest) 0 []) @ t2"
    unfolding mb using fst_bnd_prefix by blast
  moreover obtain t3 where "fst (main env parse w) = fst (mainBody env parse w) @ t3"
    by (cases "mainBody env parse w"; cases "snd (mainBody env parse w)")
       (simp_all add: main_def notifyTelegram_eq)
  moreover obtain t4 where "fst (loginWithAccount user password 0 (attempts w 0))
          = fst (attemptLogin user password 0 0 (attempts w 0 0)) @ t4"
    using loginWithAccount_prefix by blast
  ultimately show ?thesis by simp
qed

lemma natToString_0: "natToString 0 = js ''0''"
  by (simp add: natToString.simps js_def)

lemma array_entries_Cons:
  "xs \<noteq> [] \<Longrightarrow> \<exists>rest. zip (map natToString [0..<length xs]) xs = (js ''0'', hd xs) # rest"
  by (cases xs) (simp_all add: upt_conv_Cons natToString_0 del: upt_Suc)

text \<open>
  Claim C10, as the code has it. A configuration that parses to a non-empty array passes
  the validation of \<^verbatim>\<open>main\<close>: the batch loop runs over the entries of the array, whose keys are the
  decimal indices and whose values are the elements. The first attempt is made for the
  identity \<^verbatim>\<open>0\<close> with the first element as the secret, the Outcomes carry the indices
  as identities, and the batch reaches its summary when no launch and no teardown faults.
\<close>

theorem C10_array_is_accepted:
  assumes "env (js ''USERNAME_AND_PASSWORD'') = Some cfg" "cfg \<noteq> []"
    and "parse cfg = Some (JArray xs)" "xs \<noteq> []"
  shows "mainBody env parse w =
           bnd (accountsLoop w (zip (map natToString [0..<length xs]) xs) 0 []) (\<lambda>results.
           bnd (sendSummaryNotification results) (\<lambda>_. ret results))
       \<and> (\<exists>t. fst (main env parse w)
                 = fst (attemptLogin (js ''0'') (hd xs) 0 0 (attempts w 0 0)) @ t)
       \<and> (\<forall>t rs. mainBody env parse w = (t, Inr rs) \<longrightarrow>
             map username rs = map natToString [0..<length xs])
       \<and> ((\<forall>i < length xs. \<forall>rc \<le> MAX_RETRIES.
              setupOk (attempts w i rc) \<and> teardownOk (attempts w i rc)) \<longrightarrow>
           (\<exists>t rs. mainBody env parse w = (t, Inr rs)))"
proof (intro conjI allI impI)
  let ?entries = "zip (map natToString [0..<length xs]) xs"
  have oe: "objectEntries (JArray xs) = Inr ?entries" and ty: "typeof (JArray xs) = ''object''"
    by simp_all
  have ne: "?entries \<noteq> []"
    using assms(4) by (cases xs) (simp_all add: upt_conv_Cons del: upt_Suc)
  show "mainBody env parse w =
           bnd (accountsLoop w ?entries 0 []) (\<lambda>results.
           bnd (sendSummaryNotification results) (\<lambda>_. ret results))"
    by (rule mainBody_accounts [where env = env and parse = parse and cfg = cfg
          and a = "JArray xs", OF assms(1-3) oe ty ne])
  from array_entries_Cons [OF assms(4)] obtain rest where
    "objectEntries (JArray xs) = Inr ((js ''0'', hd xs) # rest)"
    by auto
  from main_prefix [where env = env and parse = parse and cfg = cfg and a = "JArray xs",
      OF assms(1-3) this ty]
  show "\<exists>t. fst (main env parse w)
                 = fst (attemptLogin (js ''0'') (hd xs) 0 0 (attempts w 0 0)) @ t" .
  {
    fix t rs
    assume "mainBody env parse w = (t, Inr rs)"
    from mainBody_results [where env = env and parse = parse and cfg = cfg and a = "JArray xs",
        OF assms(1-3) oe ty ne this]
    show "map username rs = map natToString [0..<length xs]"
      by simp
  }
  assume "\<forall>i < length xs. \<forall>rc \<le> MAX_RETRIES.
              setupOk (attempts w i rc) \<and> teardownOk (attempts w i rc)"
  then have "\<forall>i < length ?entries. \<forall>rc \<le> MAX_RETRIES.
              setupOk (attempts w i rc) \<and> teardownOk (attempts w i rc)"
    by simp
  from mainBody_total [where env = env and parse = parse and cfg = cfg and a = "JArray xs",
      OF assms(1-3) oe ty ne this]
  show "\<exists>t rs. mainBody env parse w = (t, Inr rs)" .
qed

text \<open>
  The hypotheses of C10 hold for the configuration \<^verbatim>\<open>["x"]\<close> in a world where every
  login succeeds: the batch has one Outcome, for the identity \<^verbatim>\<open>0\<close>.
\<close>

theorem C10_array_is_accepted_witness:
  "envOf (js ''[\"x\"]'') (js ''USERNAME_AND_PASSWORD'') = Some (js ''[\"x\"]'')
   \<and> parseOf (js ''[\"x\"]'') (JArray [JString (js ''x'')]) (js ''[\"x\"]'')
       = Some (JArray [JString (js ''x'')])
   \<and> (\<exists>t rs. mainBody (envOf (js ''[\"x\"]'')) (parseOf (js ''[\"x\"]'') (JArray [JString (js ''x'')]))
                 (worldOf okScenario) = (t, Inr rs)
            \<and> map username rs = map natToString [0..<length [JString (js ''x'')]])
   \<and> (\<exists>t. fst (main (envOf (js ''[\"x\"]'')) (parseOf (js ''[\"x\"]'') (JArray [JString (js ''x'')]))
                 (worldOf okScenario))
            = fst (attemptLogin (js ''0'') (hd [JString (js ''x'')]) 0 0
                     (attempts (worldOf okScenario) 0 0)) @ t)"
proof -
  let ?cfg = "js ''[\"x\"]''"
  let ?E = "envOf ?cfg"
  let ?xs = "[JString (js ''x'')]"
  let ?P = "parseOf ?cfg (JArray ?xs)"
  have ne: "?cfg \<noteq> []" by (simp add: js_def)
  have e: "?E (js ''USERNAME_AND_PASSWORD'') = Some ?cfg"
    and p: "?P ?cfg = Some (JArray ?xs)"
    using ne by (simp_all add: envOf_parseOf_facts)
  have x: "?xs \<noteq> []" by simp
  have ok: "\<forall>i < length ?xs. \<forall>rc \<le> MAX_RETRIES.
      setupOk (attempts (worldOf okScenario) i rc) \<and> teardownOk (attempts (worldOf okScenario) i rc)"
    by (simp add: worldOf_def okScenario_facts)
  from C10_array_is_accepted [where env = ?E and parse = ?P and cfg = ?cfg
      and w = "worldOf okScenario", OF e ne p x] ok e p
  show ?thesis by blast
qed

text \<open>
  Claim C10 as stated fails for the empty array: it passes the test of the type, has no
  entries, and the run fails fast with the initialization failure for a configuration
  without accounts.
\<close>

theorem C10_empty_array_counterexample:
  "typeof (JArray []) = ''object''
   \<and> main (envOf (js ''[]'')) (parseOf (js ''[]'') (JArray [])) (worldOf okScenario)
       = ([Notify False stage_init err_empty None (js ''N/A'')], 1)"
proof -
  have "js ''[]'' \<noteq> []" by (simp add: js_def)
  then show ?thesis
    by (simp add: main_def mainBody_def envOrThrow_def envOf_parseOf_facts step_simps
        notifyTelegram_eq)
qed

end
